theory Spec2Isabelle
  imports Main "HOL-Library.Word"
begin

unbundle bit_operations_syntax

section \<open>Machine words, byte order and guest memory\<close>

type_synonym u8 = "8 word"
type_synonym u32 = "32 word"
type_synonym u64 = "64 word"

text \<open>Byte \<open>k\<close> of a 32-bit word (byte 0 is the least significant one) and the word made
  of four bytes. The host is little-endian: byte 0 is the byte at the lowest address.\<close>

definition byte_of :: "u32 \<Rightarrow> nat \<Rightarrow> u8" where
  "byte_of w k = ucast (drop_bit (8 * k) w)"

definition word_of_bytes :: "u8 \<Rightarrow> u8 \<Rightarrow> u8 \<Rightarrow> u8 \<Rightarrow> u32" where
  "word_of_bytes b0 b1 b2 b3 =
     ucast b0 OR push_bit 8 (ucast b1) OR push_bit 16 (ucast b2) OR push_bit 24 (ucast b3)"

text \<open>Modelled from the spec: \<open>xe::byte_swap\<close> on \<open>uint32_t\<close> (xenia/base/byte_order.h is not
  part of the excerpt) reverses the four bytes of the word.\<close>

definition byte_swap :: "u32 \<Rightarrow> u32" where
  "byte_swap v = word_of_bytes (byte_of v 3) (byte_of v 2) (byte_of v 1) (byte_of v 0)"

text \<open>Modelled from the spec: \<open>xe::copy_and_swap\<close> on arrays of \<open>uint32_t\<close>
  (xenia/base/memory.h is not part of the excerpt) copies \<open>count\<close> words and byte-swaps each
  one. On a list of words it is the swap of every element.\<close>

definition copy_and_swap :: "u32 list \<Rightarrow> u32 list" where
  "copy_and_swap ws = map byte_swap ws"

text \<open>Guest memory as the host sees it: bytes at host offsets from the base of the guest
  address space. Host pointers are 64 bits wide, so offsets are natural numbers and pointer
  arithmetic on them does not wrap.

  Modelled from the spec: \<open>Memory::TranslateVirtual\<close> and \<open>Memory::TranslatePhysical\<close>
  (xenia/memory.h is not part of the excerpt) turn a guest address into a host pointer to the
  same guest byte; both are the offset of the guest address.\<close>

type_synonym memory = "nat \<Rightarrow> u8"

definition TranslateVirtual :: "u32 \<Rightarrow> nat" where
  "TranslateVirtual guest_address = unat guest_address"

definition TranslatePhysical :: "u32 \<Rightarrow> nat" where
  "TranslatePhysical guest_address = unat guest_address"

definition load_u32 :: "memory \<Rightarrow> nat \<Rightarrow> u32" where
  "load_u32 m a = word_of_bytes (m a) (m (a + 1)) (m (a + 2)) (m (a + 3))"

definition store_u32 :: "memory \<Rightarrow> nat \<Rightarrow> u32 \<Rightarrow> memory" where
  "store_u32 m a w =
     m(a := byte_of w 0, a + 1 := byte_of w 1, a + 2 := byte_of w 2, a + 3 := byte_of w 3)"

text \<open>An array of \<open>uint32_t\<close> in memory, read and written word by word.\<close>

definition load_words :: "memory \<Rightarrow> nat \<Rightarrow> nat \<Rightarrow> u32 list" where
  "load_words m p n = map (\<lambda>i. load_u32 m (p + 4 * i)) [0..<n]"

fun store_words :: "memory \<Rightarrow> nat \<Rightarrow> u32 list \<Rightarrow> memory" where
  "store_words m p [] = m"
| "store_words m p (w # ws) = store_words (store_u32 m p w) (p + 4) ws"

section \<open>The context data record (xma\_context.h)\<close>

text \<open>\<open>XMA_CONTEXT_DATA\<close> is 64 bytes: sixteen 32-bit words, the first five and the tenth
  cut into bit-fields. The host copy of the structure is the list of its sixteen words; a
  bit-field is a range of bits of one word, the first declared field in the lowest bits (the
  offsets in the header's comments). \<open>XMAContextData\<close> of audio\_system.cc is the same
  structure; its declaration (audio\_system.h) is not part of the excerpt, and its
  \<open>input_buffer_N_block_count\<close> is the header's \<open>input_buffer_N_packet_count\<close>.\<close>

type_synonym XMA_CONTEXT_DATA = "u32 list"

definition sizeof_XMA_CONTEXT_DATA :: nat where
  "sizeof_XMA_CONTEXT_DATA = 64"

definition kBytesPerPacket :: nat where
  "kBytesPerPacket = 2048"

definition kOutputBytesPerBlock :: nat where
  "kOutputBytesPerBlock = 256"

datatype field =
    input_buffer_0_packet_count | loop_count | input_buffer_0_valid | input_buffer_1_valid
  | output_buffer_block_count | output_buffer_write_offset
  | input_buffer_1_packet_count | loop_subframe_end | unk_dword_1_a | loop_subframe_skip
  | subframe_decode_count | unk_dword_1_b | sample_rate | is_stereo | unk_dword_1_c
  | output_buffer_valid
  | input_buffer_read_offset | unk_dword_2
  | loop_start | unk_dword_3
  | loop_end | packet_metadata | current_buffer
  | input_buffer_0_ptr | input_buffer_1_ptr | output_buffer_ptr | overlap_add_ptr
  | output_buffer_read_offset | unk_dword_9
  | unk_dwords_10_15 nat

text \<open>Word index, first bit and width of every field.\<close>

fun field_dword :: "field \<Rightarrow> nat" where
  "field_dword input_buffer_0_packet_count = 0"
| "field_dword loop_count = 0"
| "field_dword input_buffer_0_valid = 0"
| "field_dword input_buffer_1_valid = 0"
| "field_dword output_buffer_block_count = 0"
| "field_dword output_buffer_write_offset = 0"
| "field_dword input_buffer_1_packet_count = 1"
| "field_dword loop_subframe_end = 1"
| "field_dword unk_dword_1_a = 1"
| "field_dword loop_subframe_skip = 1"
| "field_dword subframe_decode_count = 1"
| "field_dword unk_dword_1_b = 1"
| "field_dword sample_rate = 1"
| "field_dword is_stereo = 1"
| "field_dword unk_dword_1_c = 1"
| "field_dword output_buffer_valid = 1"
| "field_dword input_buffer_read_offset = 2"
| "field_dword unk_dword_2 = 2"
| "field_dword loop_start = 3"
| "field_dword unk_dword_3 = 3"
| "field_dword loop_end = 4"
| "field_dword packet_metadata = 4"
| "field_dword current_buffer = 4"
| "field_dword input_buffer_0_ptr = 5"
| "field_dword input_buffer_1_ptr = 6"
| "field_dword output_buffer_ptr = 7"
| "field_dword overlap_add_ptr = 8"
| "field_dword output_buffer_read_offset = 9"
| "field_dword unk_dword_9 = 9"
| "field_dword (unk_dwords_10_15 k) = 10 + k mod 6"

fun field_shift :: "field \<Rightarrow> nat" where
  "field_shift input_buffer_0_packet_count = 0"
| "field_shift loop_count = 12"
| "field_shift input_buffer_0_valid = 20"
| "field_shift input_buffer_1_valid = 21"
| "field_shift output_buffer_block_count = 22"
| "field_shift output_buffer_write_offset = 27"
| "field_shift input_buffer_1_packet_count = 0"
| "field_shift loop_subframe_end = 12"
| "field_shift unk_dword_1_a = 14"
| "field_shift loop_subframe_skip = 17"
| "field_shift subframe_decode_count = 20"
| "field_shift unk_dword_1_b = 24"
| "field_shift sample_rate = 27"
| "field_shift is_stereo = 29"
| "field_shift unk_dword_1_c = 30"
| "field_shift output_buffer_valid = 31"
| "field_shift input_buffer_read_offset = 0"
| "field_shift unk_dword_2 = 26"
| "field_shift loop_start = 0"
| "field_shift unk_dword_3 = 26"
| "field_shift loop_end = 0"
| "field_shift packet_metadata = 26"
| "field_shift current_buffer = 31"
| "field_shift input_buffer_0_ptr = 0"
| "field_shift input_buffer_1_ptr = 0"
| "field_shift output_buffer_ptr = 0"
| "field_shift overlap_add_ptr = 0"
| "field_shift output_buffer_read_offset = 0"
| "field_shift unk_dword_9 = 5"
| "field_shift (unk_dwords_10_15 k) = 0"

fun field_width :: "field \<Rightarrow> nat" where
  "field_width input_buffer_0_packet_count = 12"
| "field_width loop_count = 8"
| "field_width input_buffer_0_valid = 1"
| "field_width input_buffer_1_valid = 1"
| "field_width output_buffer_block_count = 5"
| "field_width output_buffer_write_offset = 5"
| "field_width input_buffer_1_packet_count = 12"
| "field_width loop_subframe_end = 2"
| "field_width unk_dword_1_a = 3"
| "field_width loop_subframe_skip = 3"
| "field_width subframe_decode_count = 4"
| "field_width unk_dword_1_b = 3"
| "field_width sample_rate = 2"
| "field_width is_stereo = 1"
| "field_width unk_dword_1_c = 1"
| "field_width output_buffer_valid = 1"
| "field_width input_buffer_read_offset = 26"
| "field_width unk_dword_2 = 6"
| "field_width loop_start = 26"
| "field_width unk_dword_3 = 6"
| "field_width loop_end = 26"
| "field_width packet_metadata = 5"
| "field_width current_buffer = 1"
| "field_width input_buffer_0_ptr = 32"
| "field_width input_buffer_1_ptr = 32"
| "field_width output_buffer_ptr = 32"
| "field_width overlap_add_ptr = 32"
| "field_width output_buffer_read_offset = 5"
| "field_width unk_dword_9 = 27"
| "field_width (unk_dwords_10_15 k) = 32"

text \<open>Reading a field, and assigning to it: an assignment keeps the low \<open>field_width\<close> bits of
  the value, as C++ does for an unsigned bit-field, and leaves the other bits of the word.\<close>

definition get_field :: "XMA_CONTEXT_DATA \<Rightarrow> field \<Rightarrow> u32" where
  "get_field d f = take_bit (field_width f) (drop_bit (field_shift f) (d ! field_dword f))"

definition set_field :: "XMA_CONTEXT_DATA \<Rightarrow> field \<Rightarrow> u32 \<Rightarrow> XMA_CONTEXT_DATA" where
  "set_field d f v =
     d[field_dword f :=
         (d ! field_dword f AND NOT (push_bit (field_shift f) (mask (field_width f))))
         OR push_bit (field_shift f) (take_bit (field_width f) v)]"

text \<open>The constructor \<open>XMA_CONTEXT_DATA(const void* ptr)\<close> and \<open>Store(void* ptr)\<close>: both run
  \<open>copy_and_swap\<close> over \<open>sizeof(XMA_CONTEXT_DATA) / 4\<close> words, from the pointer into the
  structure and from the structure to the pointer.\<close>

definition XMA_CONTEXT_DATA_load :: "memory \<Rightarrow> nat \<Rightarrow> XMA_CONTEXT_DATA" where
  "XMA_CONTEXT_DATA_load m ptr =
     copy_and_swap (load_words m ptr (sizeof_XMA_CONTEXT_DATA div 4))"

definition Store :: "XMA_CONTEXT_DATA \<Rightarrow> memory \<Rightarrow> nat \<Rightarrow> memory" where
  "Store d m ptr = store_words m ptr (copy_and_swap (take (sizeof_XMA_CONTEXT_DATA div 4) d))"

section \<open>The audio system (audio\_system.cc)\<close>

definition kXmaContextSize :: nat where
  "kXmaContextSize = 64"

definition kXmaContextCount :: nat where
  "kXmaContextCount = 320"

text \<open>An assertion of the source that fails (\<open>assert\<close>, \<open>assert_true\<close>, \<open>assert_zero\<close>) ends
  the call; so does a call through a null reference.\<close>

datatype error = AssertionFailed | NullReference

text \<open>\<open>X_STATUS\<close> is a 32-bit code.

  Modelled from the spec: the status codes and the macros \<open>XSUCCEEDED\<close> and \<open>XFAILED\<close> are
  declared in xenia/xbox.h, which is not part of the excerpt; they follow the NT convention,
  where a code with one of its two top bits set is a failure.\<close>

type_synonym X_STATUS = u32

definition X_STATUS_SUCCESS :: X_STATUS where
  "X_STATUS_SUCCESS = 0x00000000"

definition X_STATUS_PENDING :: X_STATUS where
  "X_STATUS_PENDING = 0x00000103"

definition X_STATUS_INVALID_HANDLE :: X_STATUS where
  "X_STATUS_INVALID_HANDLE = 0xC0000008"

definition XSUCCEEDED :: "X_STATUS \<Rightarrow> bool" where
  "XSUCCEEDED s \<longleftrightarrow> s AND 0xC0000000 = 0"

definition XFAILED :: "X_STATUS \<Rightarrow> bool" where
  "XFAILED s \<longleftrightarrow> \<not> XSUCCEEDED s"

subsection \<open>The decoder collaborator\<close>

text \<open>Modelled from the spec: \<open>AudioDecoder\<close> (audio\_decoder.h is not part of the excerpt) is
  the opaque codec. Its three operations are parameters of the model, over a decoder state
  \<open>'d\<close>:
  \<^item> \<open>DecodePacket d m output offset size\<close> returns the C \<open>int\<close> result, the new decoder state
    and the memory after the samples it wrote;
  \<^item> \<open>PreparePacket d m packet size sample_rate channels\<close> stages a packet (its result is
    ignored by the caller);
  \<^item> \<open>DiscardPacket d\<close> abandons the packet in flight.\<close>

record 'd AudioDecoder =
  DecodePacket :: "'d \<Rightarrow> memory \<Rightarrow> nat \<Rightarrow> nat \<Rightarrow> nat \<Rightarrow> int \<times> 'd \<times> memory"
  PreparePacket :: "'d \<Rightarrow> memory \<Rightarrow> nat \<Rightarrow> nat \<Rightarrow> int \<Rightarrow> int \<Rightarrow> 'd"
  DiscardPacket :: "'d \<Rightarrow> 'd"

subsection \<open>State\<close>

text \<open>\<open>XMAContext\<close>: one slot of \<open>xma_context_array_\<close>. Its mutex is not part of the sequential
  model: every operation below runs with the locks it takes free, and releases them before it
  returns.\<close>

record 'd XMAContext =
  guest_ptr :: u32
  in_use :: bool
  decoder :: 'd

text \<open>One entry of \<open>clients_\<close>; the driver is a host pointer, null when the slot is empty.\<close>

record client =
  driver :: u64
  callback :: u32
  callback_arg :: u32
  wrapped_callback_arg :: u32

text \<open>The members of \<open>AudioSystem\<close> that the operations below use. Arrays are functions of
  the index; \<open>xma_context_array\<close> has \<open>kXmaContextCount\<close> slots and every index computed
  below stays under it. \<open>unused_clients\<close> is the \<open>std::queue\<close> of free client indices,
  front first. \<open>client_wait_handles\<close> gives for each manual-reset event (\<open>CreateEvent\<close> with
  \<open>bManualReset = TRUE\<close>) whether it is signalled. \<open>decoder_fence\<close> counts the calls of
  \<open>decoder_fence_.Signal()\<close>. \<open>submitted_frames\<close> lists the calls of the driver's
  \<open>SubmitFrame\<close>.

  Modelled from the spec: the declaration of \<open>registers_\<close> and \<open>register_file_\<close>
  (audio\_system.h) is not part of the excerpt. The register file is the backing array of
  32-bit words; \<open>xma_context_array_ptr\<close>, \<open>current_context\<close> and \<open>next_context\<close> are the
  fields of \<open>registers_\<close>, kept as storage of their own.\<close>

record 'd AudioSystem =
  xma_context_array :: "nat \<Rightarrow> 'd XMAContext"
  xma_context_array_ptr :: u32
  current_context :: u32
  next_context :: u32
  register_file :: "nat \<Rightarrow> u32"
  memory :: memory
  decoder_fence :: nat
  clients :: "nat \<Rightarrow> client"
  unused_clients :: "nat list"
  client_wait_handles :: "nat \<Rightarrow> bool"
  submitted_frames :: "(u64 \<times> u32) list"

subsection \<open>Setup\<close>

text \<open>The part of \<open>AudioSystem::Setup\<close> that initialises the context array and the counter.
  \<open>ptr\<close> is the address returned by \<open>SystemHeapAlloc\<close> and \<open>new_decoder\<close> the state of a
  decoder after \<open>Initialize(16)\<close>. The loop runs from the last slot down to slot 0; the address
  arithmetic is on \<open>uint32_t\<close>.\<close>

fun Setup_loop :: "nat \<Rightarrow> u32 \<Rightarrow> 'd \<Rightarrow> (nat \<Rightarrow> 'd XMAContext) \<Rightarrow> (nat \<Rightarrow> 'd XMAContext)" where
  "Setup_loop 0 array_ptr new_decoder arr = arr"
| "Setup_loop (Suc i) array_ptr new_decoder arr =
     Setup_loop i array_ptr new_decoder
       (arr(i := \<lparr>guest_ptr = array_ptr + of_nat i * of_nat kXmaContextSize,
                 in_use = False, decoder = new_decoder\<rparr>))"

definition Setup :: "u32 \<Rightarrow> 'd \<Rightarrow> 'd AudioSystem \<Rightarrow> 'd AudioSystem" where
  "Setup ptr new_decoder s =
     s\<lparr>xma_context_array_ptr := ptr,
       xma_context_array := Setup_loop kXmaContextCount ptr new_decoder (xma_context_array s),
       next_context := 1\<rparr>"

subsection \<open>AllocateXmaContext and ReleaseXmaContext\<close>

function AllocateXmaContext_loop ::
  "nat \<Rightarrow> (nat \<Rightarrow> 'd XMAContext) \<Rightarrow> u32 \<times> (nat \<Rightarrow> 'd XMAContext)" where
  "AllocateXmaContext_loop n arr =
     (if n < kXmaContextCount then
        (if \<not> in_use (arr n) then (guest_ptr (arr n), arr(n := (arr n)\<lparr>in_use := True\<rparr>))
         else AllocateXmaContext_loop (n + 1) arr)
      else (0, arr))"
  by pat_completeness auto
termination
  by (relation "measure (\<lambda>(n, arr). kXmaContextCount - n)") auto

declare AllocateXmaContext_loop.simps [simp del]

definition AllocateXmaContext :: "'d AudioSystem \<Rightarrow> u32 \<times> 'd AudioSystem" where
  "AllocateXmaContext s =
     (case AllocateXmaContext_loop 0 (xma_context_array s) of
        (result, arr) \<Rightarrow> (result, s\<lparr>xma_context_array := arr\<rparr>))"

text \<open>\<open>std::memset(ptr, value, count)\<close> on host memory.\<close>

definition memset :: "memory \<Rightarrow> nat \<Rightarrow> u8 \<Rightarrow> nat \<Rightarrow> memory" where
  "memset m ptr v count = (\<lambda>a. if ptr \<le> a \<and> a < ptr + count then v else m a)"

text \<open>The loop of \<open>ReleaseXmaContext\<close> visits every slot and has no \<open>break\<close>.\<close>

function ReleaseXmaContext_loop ::
  "'d AudioDecoder \<Rightarrow> u32 \<Rightarrow> nat \<Rightarrow> 'd AudioSystem \<Rightarrow> 'd AudioSystem" where
  "ReleaseXmaContext_loop ops ptr n s =
     (if n < kXmaContextCount then
        (let context = xma_context_array s n in
         if guest_ptr context = ptr then
           ReleaseXmaContext_loop ops ptr (n + 1)
             (s\<lparr>xma_context_array := (xma_context_array s)
                   (n := context\<lparr>in_use := False, decoder := DiscardPacket ops (decoder context)\<rparr>),
                memory := memset (memory s) (TranslateVirtual ptr) 0 kXmaContextSize\<rparr>)
         else ReleaseXmaContext_loop ops ptr (n + 1) s)
      else s)"
  by pat_completeness auto
termination
  by (relation "measure (\<lambda>(ops, ptr, n, s). kXmaContextCount - n)") auto

declare ReleaseXmaContext_loop.simps [simp del]

definition ReleaseXmaContext :: "'d AudioDecoder \<Rightarrow> u32 \<Rightarrow> 'd AudioSystem \<Rightarrow> 'd AudioSystem" where
  "ReleaseXmaContext ops ptr s = ReleaseXmaContext_loop ops ptr 0 s"

text \<open>What the loop of \<open>ReleaseXmaContext\<close> has done when it has visited the slots from \<open>n\<close>
  on.\<close>

definition released :: "'d AudioDecoder \<Rightarrow> u32 \<Rightarrow> nat \<Rightarrow> 'd AudioSystem \<Rightarrow> 'd AudioSystem" where
  "released ops ptr n s =
     s\<lparr>xma_context_array := (\<lambda>k.
          if n \<le> k \<and> k < kXmaContextCount \<and> guest_ptr (xma_context_array s k) = ptr
          then (xma_context_array s k)\<lparr>in_use := False,
                 decoder := DiscardPacket ops (decoder (xma_context_array s k))\<rparr>
          else xma_context_array s k),
       memory := (if \<exists>k. n \<le> k \<and> k < kXmaContextCount \<and> guest_ptr (xma_context_array s k) = ptr
                  then memset (memory s) (TranslateVirtual ptr) 0 kXmaContextSize
                  else memory s)\<rparr>"

text \<open>The pool state: for every slot its guest address and whether it is in use.\<close>

definition pool_state :: "'d AudioSystem \<Rightarrow> (u32 \<times> bool) list" where
  "pool_state s =
     map (\<lambda>n. (guest_ptr (xma_context_array s n), in_use (xma_context_array s n)))
       [0..<kXmaContextCount]"

subsection \<open>ReadRegister and WriteRegister\<close>

definition ReadRegister :: "'d AudioSystem \<Rightarrow> u32 \<Rightarrow> error + (u64 \<times> 'd AudioSystem)" where
  "ReadRegister s addr =
     (let r = addr AND 0xFFFF in
      if r mod 4 \<noteq> 0 then Inl AssertionFailed
      else
        let value = register_file s (unat r div 4) in
        if r = 0x1818 then
          (let s1 = s\<lparr>current_context := next_context s\<rparr>;
               s2 = s1\<lparr>next_context := (next_context s1 + 1) mod of_nat kXmaContextCount\<rparr>
           in Inr (ucast (byte_swap (current_context s2)), s2))
        else Inr (ucast (byte_swap value), s))"

text \<open>The body of the kick loop for one set bit: load the record of the context, set the two
  input valid flags from the input pointers, zero the output write offset, store the record
  and signal the decoder fence.\<close>

definition kick_data :: "XMA_CONTEXT_DATA \<Rightarrow> XMA_CONTEXT_DATA" where
  "kick_data data =
     (let data1 = set_field data input_buffer_0_valid
                    (if get_field data input_buffer_0_ptr \<noteq> 0 then 1 else 0);
          data2 = set_field data1 input_buffer_1_valid
                    (if get_field data1 input_buffer_1_ptr \<noteq> 0 then 1 else 0)
      in set_field data2 output_buffer_write_offset 0)"

definition kick_context :: "'d AudioSystem \<Rightarrow> nat \<Rightarrow> 'd AudioSystem" where
  "kick_context s context_id =
     (let context = xma_context_array s context_id;
          context_ptr = TranslateVirtual (guest_ptr context);
          data = XMA_CONTEXT_DATA_load (memory s) context_ptr
      in s\<lparr>memory := Store (kick_data data) (memory s) context_ptr,
           decoder_fence := decoder_fence s + 1\<rparr>)"

text \<open>\<open>for (int i = 0; value && i < 32; ++i) { if (value & 1) ...; value >>= 1; }\<close> with
  \<open>uint64_t value\<close> and \<open>context_id = i + (r - 0x1940) / 4 * 32\<close>.\<close>

function kick_loop :: "nat \<Rightarrow> u64 \<Rightarrow> u32 \<Rightarrow> 'd AudioSystem \<Rightarrow> 'd AudioSystem" where
  "kick_loop i v r s =
     (if v \<noteq> 0 \<and> i < 32 then
        kick_loop (i + 1) (drop_bit 1 v) r
          (if v AND 1 \<noteq> 0 then kick_context s (i + unat ((r - 0x1940) div 4 * 32)) else s)
      else s)"
  by pat_completeness auto
termination
  by (relation "measure (\<lambda>(i, v, r, s). 32 - i)") auto

declare kick_loop.simps [simp del]

text \<open>The loops of the lock command (0x1A40) and of the clear command (0x1A80) compute a
  context and do nothing with it: they leave the state as it is.\<close>

definition WriteRegister :: "'d AudioSystem \<Rightarrow> u32 \<Rightarrow> u64 \<Rightarrow> error + 'd AudioSystem" where
  "WriteRegister s addr value0 =
     (let r = addr AND 0xFFFF;
          v = (ucast (byte_swap (ucast value0)) :: u64)
      in if r mod 4 \<noteq> 0 then Inl AssertionFailed
         else
           let s1 = s\<lparr>register_file := (register_file s)(unat r div 4 := ucast v)\<rparr> in
           if 0x1940 \<le> r \<and> r \<le> 0x1940 + 9 * 4 then Inr (kick_loop 0 v r s1)
           else if 0x1A40 \<le> r \<and> r \<le> 0x1A40 + 9 * 4 then Inr s1
           else if 0x1A80 \<le> r \<and> r \<le> 0x1A80 + 9 * 4 then Inr s1
           else Inr s1)"

text \<open>A sequence of register accesses, the values read collected in order.\<close>

datatype access = RegRead u32 | RegWrite u32 u64

fun run :: "'d AudioSystem \<Rightarrow> access list \<Rightarrow> error + (u64 list \<times> 'd AudioSystem)" where
  "run s [] = Inr ([], s)"
| "run s (RegRead addr # as) =
     (case ReadRegister s addr of
        Inl e \<Rightarrow> Inl e
      | Inr (v, s') \<Rightarrow>
          (case run s' as of Inl e \<Rightarrow> Inl e | Inr (vs, s'') \<Rightarrow> Inr (v # vs, s'')))"
| "run s (RegWrite addr v # as) =
     (case WriteRegister s addr v of Inl e \<Rightarrow> Inl e | Inr s' \<Rightarrow> run s' as)"

fun is_read :: "access \<Rightarrow> bool" where
  "is_read (RegRead addr) = True"
| "is_read (RegWrite addr v) = False"

text \<open>An access the sequence property is about: a read of the status register, or a write
  to an aligned register.\<close>

fun status_read_or_write :: "access \<Rightarrow> bool" where
  "status_read_or_write (RegRead addr) = (addr AND 0xFFFF = 0x1818)"
| "status_read_or_write (RegWrite addr v) = ((addr AND 0xFFFF) mod 4 = 0)"

text \<open>The values of \<open>n\<close> successive reads of the status register, the counter at \<open>start\<close>.\<close>

definition rotation :: "nat \<Rightarrow> nat \<Rightarrow> u64 list" where
  "rotation start n =
     map (\<lambda>k. ucast (byte_swap (of_nat ((start + k) mod kXmaContextCount)))) [0..<n]"

text \<open>The guest record of context \<open>c\<close>: where it is in host memory, and its sixteen
  words as the host loads them. The records of two slots are disjoint when their 64-byte
  ranges do not meet.\<close>

definition context_ptr :: "'d AudioSystem \<Rightarrow> nat \<Rightarrow> nat" where
  "context_ptr s c = TranslateVirtual (guest_ptr (xma_context_array s c))"

definition context_record :: "'d AudioSystem \<Rightarrow> nat \<Rightarrow> XMA_CONTEXT_DATA" where
  "context_record s c = XMA_CONTEXT_DATA_load (memory s) (context_ptr s c)"

definition records_disjoint :: "'d AudioSystem \<Rightarrow> bool" where
  "records_disjoint s \<longleftrightarrow>
     (\<forall>i<kXmaContextCount. \<forall>j<kXmaContextCount. i \<noteq> j \<longrightarrow>
        context_ptr s i + 64 \<le> context_ptr s j \<or> context_ptr s j + 64 \<le> context_ptr s i)"

text \<open>The contexts a write of the word \<open>w\<close> to the kick register at offset \<open>r\<close> names: one
  for every set bit.\<close>

definition kicked :: "u32 \<Rightarrow> u32 \<Rightarrow> nat \<Rightarrow> bool" where
  "kicked r w c \<longleftrightarrow> (\<exists>b<32. bit w b \<and> c = b + (unat r - 0x1940) div 4 * 32)"

text \<open>The bits the loop still has to look at when its counter is \<open>i\<close> and its value \<open>v\<close>.\<close>

definition pending_bits :: "nat \<Rightarrow> u64 \<Rightarrow> nat set" where
  "pending_bits i v = {b. i \<le> b \<and> b < 32 \<and> bit v (b - i)}"

text \<open>The fields the kick assigns to.\<close>

definition kick_written_fields :: "field set" where
  "kick_written_fields = {input_buffer_0_valid, input_buffer_1_valid, output_buffer_write_offset}"


subsection \<open>Arithmetic on \<open>size_t\<close>\<close>

text \<open>\<open>size_t\<close> is 64 bits wide on the hosts the emulator builds for. Values of that type
  are natural numbers below \<open>2 ^ 64\<close>, with the wrap-around of sums and differences written
  out.\<close>

definition size_t_wrap :: "nat \<Rightarrow> nat" where
  "size_t_wrap n = n mod 2 ^ 64"

definition size_t_sub :: "nat \<Rightarrow> nat \<Rightarrow> nat" where
  "size_t_sub a b = (a + (2 ^ 64 - b mod 2 ^ 64)) mod 2 ^ 64"

subsection \<open>Clients\<close>

text \<open>\<open>RegisterClient\<close>. \<open>CreateDriver\<close> is a virtual function of the audio system, given here
  as a function of the client index that returns its status and the driver it made;
  \<open>heap_ptr\<close> is the address \<open>SystemHeapAlloc(0x4)\<close> returns. The result is the status, the
  index written through \<open>out_index\<close> (when the call gets that far) and the new state.
  \<open>maximum_client_count_\<close> is declared in audio\_system.h and is a parameter wherever it is
  used.\<close>

definition RegisterClient ::
  "(nat \<Rightarrow> X_STATUS \<times> u64) \<Rightarrow> u32 \<Rightarrow> 'd AudioSystem \<Rightarrow> u32 \<Rightarrow> u32
     \<Rightarrow> error + (X_STATUS \<times> nat option \<times> 'd AudioSystem)" where
  "RegisterClient CreateDriver heap_ptr s callback' callback_arg' =
     (if length (unused_clients s) = 0 then Inl AssertionFailed
      else
        let index = hd (unused_clients s);
            s1 = s\<lparr>client_wait_handles := (client_wait_handles s)(index := False)\<rparr>;
            (result, driver') = CreateDriver index
        in if XFAILED result then Inr (result, None, s1)
           else if driver' = 0 then Inl AssertionFailed
           else
             let s2 = s1\<lparr>unused_clients := tl (unused_clients s1)\<rparr>;
                 s3 = s2\<lparr>memory :=
                         store_u32 (memory s2) (TranslateVirtual heap_ptr) (byte_swap callback_arg')\<rparr>;
                 s4 = s3\<lparr>clients := (clients s3)
                         (index := \<lparr>driver = driver', callback = callback',
                                    callback_arg = callback_arg',
                                    wrapped_callback_arg = heap_ptr\<rparr>)\<rparr>
             in Inr (X_STATUS_SUCCESS, Some index, s4))"

definition SubmitFrame ::
  "nat \<Rightarrow> 'd AudioSystem \<Rightarrow> nat \<Rightarrow> u32 \<Rightarrow> error + 'd AudioSystem" where
  "SubmitFrame maximum_client_count s index samples_ptr =
     (if \<not> index < maximum_client_count then Inl AssertionFailed
      else if driver (clients s index) = 0 then Inl AssertionFailed
      else Inr (s\<lparr>submitted_frames :=
                     submitted_frames s @ [(driver (clients s index), samples_ptr)],
                   client_wait_handles := (client_wait_handles s)(index := False)\<rparr>))"

definition UnregisterClient :: "nat \<Rightarrow> 'd AudioSystem \<Rightarrow> nat \<Rightarrow> error + 'd AudioSystem" where
  "UnregisterClient maximum_client_count s index =
     (if \<not> index < maximum_client_count then Inl AssertionFailed
      else Inr (s\<lparr>clients := (clients s)
                     (index := \<lparr>driver = 0, callback = 0, callback_arg = 0,
                                wrapped_callback_arg = 0\<rparr>),
                   unused_clients := unused_clients s @ [index],
                   client_wait_handles := (client_wait_handles s)(index := False)\<rparr>))"

subsection \<open>The client worker\<close>

text \<open>One turn of the main loop of \<open>WorkerThreadMain\<close>, from the return of
  \<open>WaitForMultipleObjectsEx\<close> to the next wait. \<open>Execute\<close> is the processor running a guest
  function with one argument on the worker thread: guest code, which may call back into the
  audio system, so it is a function on the state. The turn returns the state and the guest
  calls it made, each with the client index.

  \<open>pump\<close> is the \<open>do ... while\<close> loop: \<open>WaitForSingleObject(handle, 0) == WAIT_OBJECT_0\<close> on a
  manual-reset event tests whether it is signalled and leaves it as it is.\<close>

type_synonym 'd guest_call = "u32 \<Rightarrow> u32 \<Rightarrow> 'd AudioSystem \<Rightarrow> 'd AudioSystem"

function pump ::
  "'d guest_call \<Rightarrow> nat \<Rightarrow> nat \<Rightarrow> 'd AudioSystem \<Rightarrow> (nat \<times> u32 \<times> u32) list
     \<Rightarrow> 'd AudioSystem \<times> (nat \<times> u32 \<times> u32) list" where
  "pump Execute maximum_client_count index s calls =
     (let client_callback = callback (clients s index);
          client_callback_arg = wrapped_callback_arg (clients s index);
          s1 = (if client_callback \<noteq> 0 then Execute client_callback client_callback_arg s
                else s);
          calls1 = (if client_callback \<noteq> 0
                    then calls @ [(index, client_callback, client_callback_arg)] else calls)
      in if index + 1 < maximum_client_count \<and> client_wait_handles s1 (index + 1)
         then pump Execute maximum_client_count (index + 1) s1 calls1
         else (s1, calls1))"
  by pat_completeness auto
termination
  by (relation "measure (\<lambda>(Execute, maximum_client_count, index, s, calls).
        maximum_client_count - index)") auto

declare pump.simps [simp del]

definition WAIT_OBJECT_0 :: nat where
  "WAIT_OBJECT_0 = 0"

definition WAIT_FAILED :: nat where
  "WAIT_FAILED = 0xFFFFFFFF"

definition worker_turn ::
  "'d guest_call \<Rightarrow> nat \<Rightarrow> 'd AudioSystem \<Rightarrow> nat
     \<Rightarrow> 'd AudioSystem \<times> (nat \<times> u32 \<times> u32) list" where
  "worker_turn Execute maximum_client_count s result =
     (if result = WAIT_FAILED \<or> result = WAIT_OBJECT_0 + maximum_client_count then (s, [])
      else if WAIT_OBJECT_0 \<le> result
              \<and> result \<le> WAIT_OBJECT_0 + size_t_sub maximum_client_count 1
      then pump Execute maximum_client_count (result - WAIT_OBJECT_0) s []
      else (s, []))"

text \<open>A guest callback that submits one frame for client \<open>index\<close>, as the callback of a
  render driver does, and one that returns without submitting.\<close>

definition submitting_callback :: "nat \<Rightarrow> nat \<Rightarrow> 'd guest_call" where
  "submitting_callback maximum_client_count index cb arg s =
     (case SubmitFrame maximum_client_count s index arg of Inl e \<Rightarrow> s | Inr s' \<Rightarrow> s')"

definition idle_callback :: "'d guest_call" where
  "idle_callback cb arg s = s"

text \<open>\<open>WaitForMultipleObjectsEx\<close> of the host, called with \<open>bWaitAll = FALSE\<close> and an
  infinite timeout on \<open>n\<close> manual-reset events (the constructor makes them with
  \<open>CreateEvent(NULL, TRUE, FALSE, NULL)\<close>): it returns \<open>WAIT_OBJECT_0\<close> plus the smallest
  index of a signalled event and leaves the events as they are; \<open>None\<close> is the thread blocked
  because no event is signalled.\<close>

definition WaitForMultipleObjectsEx :: "nat \<Rightarrow> (nat \<Rightarrow> bool) \<Rightarrow> nat option" where
  "WaitForMultipleObjectsEx n handles =
     map_option (\<lambda>i. WAIT_OBJECT_0 + i) (find handles [0..<n])"

text \<open>The main loop of \<open>WorkerThreadMain\<close> for at most \<open>turns\<close> turns, while
  \<open>worker_running_\<close> stays set and no other thread changes the state: every turn waits on the
  \<open>maximum_client_count + 1\<close> events and runs \<open>worker_turn\<close> on the result. The run ends early
  when the wait finds no event signalled. The result is the state and all the guest calls
  made.\<close>

fun worker_loop ::
  "'d guest_call \<Rightarrow> nat \<Rightarrow> nat \<Rightarrow> 'd AudioSystem \<Rightarrow> (nat \<times> u32 \<times> u32) list
     \<Rightarrow> 'd AudioSystem \<times> (nat \<times> u32 \<times> u32) list" where
  "worker_loop Execute maximum_client_count 0 s calls = (s, calls)"
| "worker_loop Execute maximum_client_count (Suc turns) s calls =
     (case WaitForMultipleObjectsEx (maximum_client_count + 1) (client_wait_handles s) of
        None \<Rightarrow> (s, calls)
      | Some result \<Rightarrow>
          (case worker_turn Execute maximum_client_count s result of
             (s', new) \<Rightarrow> worker_loop Execute maximum_client_count turns s' (calls @ new)))"

subsection \<open>The decoder thread\<close>

text \<open>What the inner loop does to its collaborators, in order.\<close>

datatype event =
    EvDecodePacket nat nat int
  | EvLog int
  | EvDiscardPacket
  | EvPreparePacket nat nat int int

text \<open>The loop's \<open>size_t\<close> variables are natural numbers with the wrap-around of
  \<open>size_t_wrap\<close> and \<open>size_t_sub\<close>. The bit-fields read in the loop are promoted to \<open>int\<close>
  and their sums and products fit it.\<close>

definition select_sample_rate :: "u32 \<Rightarrow> int" where
  "select_sample_rate sr =
     (if sr = 0 then 24000 else if sr = 1 then 32000 else if sr = 2 then 44100
      else if sr = 3 then 48000 else 0)"

definition select_channels :: "u32 \<Rightarrow> int" where
  "select_channels stereo = (if stereo = 1 then 2 else 1)"

text \<open>The \<open>while (true)\<close> loop of \<open>DecoderThreadMain\<close>. It has no bound of its own, so the
  model takes fuel: one unit for every time the body is entered, \<open>None\<close> when it runs out.
  The result is the trace of events, the number of iterations that ran to the end of the
  body (those that did not \<open>break\<close>), and the record, decoder and memory at the exit.\<close>

fun decode_loop ::
  "'d AudioDecoder \<Rightarrow> nat \<Rightarrow> nat \<Rightarrow> nat \<Rightarrow> XMA_CONTEXT_DATA \<Rightarrow> 'd \<Rightarrow> memory
     \<Rightarrow> (event list \<times> nat \<times> XMA_CONTEXT_DATA \<times> 'd \<times> memory) option" where
  "decode_loop ops 0 in0 out data dec m = None"
| "decode_loop ops (Suc fuel) in0 out data dec m =
     (let input_size =
            (unat (get_field data input_buffer_0_packet_count)
             + unat (get_field data input_buffer_1_packet_count)) * 2048;
          input_offset = size_t_sub (unat (get_field data input_buffer_read_offset) div 8) 4;
          input_remaining = size_t_sub input_size input_offset
      in if input_remaining = 0 then Some ([], 0, data, dec, m)
         else
           let output_size = unat (get_field data output_buffer_block_count) * 256;
               output_offset = unat (get_field data output_buffer_write_offset) * 256;
               output_remaining = size_t_sub output_size output_offset
           in if output_remaining = 0 then Some ([], 0, data, dec, m)
              else
                case DecodePacket ops dec m out output_offset output_remaining of
                  (read, dec1, m1) \<Rightarrow>
                    if read < 0 then
                      Some ([EvDecodePacket output_offset output_remaining read,
                             EvLog (- read), EvDiscardPacket],
                            0, data, DiscardPacket ops dec1, m1)
                    else
                      let sample_rate' = select_sample_rate (get_field data sample_rate);
                          channels = select_channels (get_field data is_stereo);
                          packet = in0 + input_offset;
                          dec2 = (if read = 0
                                  then PreparePacket ops dec1 m1 packet 2048 sample_rate' channels
                                  else dec1);
                          evs = EvDecodePacket output_offset output_remaining read #
                                (if read = 0
                                 then [EvPreparePacket packet 2048 sample_rate' channels]
                                 else []);
                          input_offset2 = (if read = 0 then size_t_wrap (input_offset + 2048)
                                           else input_offset);
                          output_offset2 = size_t_wrap (output_offset + nat read);
                          data1 = set_field data input_buffer_read_offset
                                    (of_nat (size_t_wrap ((input_offset2 + 4) * 8)));
                          data2 = set_field data1 output_buffer_write_offset
                                    (of_nat (output_offset2 div 256))
                      in (case decode_loop ops fuel in0 out data2 dec2 m1 of
                            None \<Rightarrow> None
                          | Some (evs', k, rest) \<Rightarrow> Some (evs @ evs', Suc k, rest)))"

declare decode_loop.simps [simp del]

text \<open>The quantities one iteration of the loop computes from the record, and the record it
  writes back at the end of the body when the decoder returned \<open>read\<close>.\<close>

definition loop_input_size :: "XMA_CONTEXT_DATA \<Rightarrow> nat" where
  "loop_input_size data =
     (unat (get_field data input_buffer_0_packet_count)
      + unat (get_field data input_buffer_1_packet_count)) * 2048"

definition loop_input_offset :: "XMA_CONTEXT_DATA \<Rightarrow> nat" where
  "loop_input_offset data =
     size_t_sub (unat (get_field data input_buffer_read_offset) div 8) 4"

definition loop_input_remaining :: "XMA_CONTEXT_DATA \<Rightarrow> nat" where
  "loop_input_remaining data = size_t_sub (loop_input_size data) (loop_input_offset data)"

definition loop_output_size :: "XMA_CONTEXT_DATA \<Rightarrow> nat" where
  "loop_output_size data = unat (get_field data output_buffer_block_count) * 256"

definition loop_output_offset :: "XMA_CONTEXT_DATA \<Rightarrow> nat" where
  "loop_output_offset data = unat (get_field data output_buffer_write_offset) * 256"

definition loop_output_remaining :: "XMA_CONTEXT_DATA \<Rightarrow> nat" where
  "loop_output_remaining data = size_t_sub (loop_output_size data) (loop_output_offset data)"

definition loop_next_data :: "XMA_CONTEXT_DATA \<Rightarrow> int \<Rightarrow> XMA_CONTEXT_DATA" where
  "loop_next_data data read =
     set_field
       (set_field data input_buffer_read_offset
          (of_nat (size_t_wrap
             (((if read = 0 then size_t_wrap (loop_input_offset data + 2048)
                else loop_input_offset data) + 4) * 8))))
       output_buffer_write_offset
       (of_nat (size_t_wrap (loop_output_offset data + nat read) div 256))"

definition loop_next_decoder ::
  "'d AudioDecoder \<Rightarrow> nat \<Rightarrow> XMA_CONTEXT_DATA \<Rightarrow> int \<Rightarrow> 'd \<Rightarrow> memory \<Rightarrow> 'd" where
  "loop_next_decoder ops in0 data read dec1 m1 =
     (if read = 0
      then PreparePacket ops dec1 m1 (in0 + loop_input_offset data) 2048
             (select_sample_rate (get_field data sample_rate))
             (select_channels (get_field data is_stereo))
      else dec1)"

definition loop_events :: "nat \<Rightarrow> XMA_CONTEXT_DATA \<Rightarrow> int \<Rightarrow> event list" where
  "loop_events in0 data read =
     EvDecodePacket (loop_output_offset data) (loop_output_remaining data) read #
     (if read = 0
      then [EvPreparePacket (in0 + loop_input_offset data) 2048
              (select_sample_rate (get_field data sample_rate))
              (select_channels (get_field data is_stereo))]
      else [])"

text \<open>A trace in which a failed \<open>DecodePacket\<close> is followed by the log entry and the
  discard, and by nothing else.\<close>

fun stops_after_failure :: "event list \<Rightarrow> bool" where
  "stops_after_failure [] = True"
| "stops_after_failure (EvDecodePacket offset sz read # es) =
     (if read < 0 then es = [EvLog (- read), EvDiscardPacket] else stops_after_failure es)"
| "stops_after_failure (e # es) = stops_after_failure es"

text \<open>A trace in which every \<open>DecodePacket\<close> is given an offset and a size that end at
  \<open>limit\<close>.\<close>

fun bounded_by :: "nat \<Rightarrow> event list \<Rightarrow> bool" where
  "bounded_by limit [] = True"
| "bounded_by limit (EvDecodePacket offset sz read # es) =
     (offset + sz = limit \<and> bounded_by limit es)"
| "bounded_by limit (e # es) = bounded_by limit es"

text \<open>Whether a trace has a call of \<open>DecodePacket\<close> that failed, and how many calls of
  \<open>DecodePacket\<close> in it did not fail.\<close>

fun failed :: "event list \<Rightarrow> bool" where
  "failed [] = False"
| "failed (EvDecodePacket offset sz read # es) = (read < 0 \<or> failed es)"
| "failed (e # es) = failed es"

fun completed :: "event list \<Rightarrow> nat" where
  "completed [] = 0"
| "completed (EvDecodePacket offset sz read # es) =
     (if read < 0 then completed es else Suc (completed es))"
| "completed (e # es) = completed es"

text \<open>The record, decoder and memory after \<open>k\<close> iterations of the loop that ran to the end of
  the body; \<open>None\<close> when one of them left the loop.\<close>

fun loop_state ::
  "'d AudioDecoder \<Rightarrow> nat \<Rightarrow> nat \<Rightarrow> nat \<Rightarrow> XMA_CONTEXT_DATA \<Rightarrow> 'd \<Rightarrow> memory
     \<Rightarrow> (XMA_CONTEXT_DATA \<times> 'd \<times> memory) option" where
  "loop_state ops 0 in0 out data dec m = Some (data, dec, m)"
| "loop_state ops (Suc k) in0 out data dec m =
     (if loop_input_remaining data = 0 \<or> loop_output_remaining data = 0 then None
      else
        case DecodePacket ops dec m out (loop_output_offset data) (loop_output_remaining data) of
          (read, dec1, m1) \<Rightarrow>
            if read < 0 then None
            else loop_state ops k in0 out (loop_next_data data read)
                   (loop_next_decoder ops in0 data read dec1 m1) m1)"

declare loop_state.simps [simp del]

text \<open>The body of the \<open>for\<close> loop over the contexts, for context \<open>n\<close>, with its lock free:
  skip an unused context; load the record; when an input buffer is valid, clear the three
  valid flags, run the inner loop and store the record.\<close>

definition process_context ::
  "'d AudioDecoder \<Rightarrow> nat \<Rightarrow> 'd AudioSystem \<Rightarrow> nat
     \<Rightarrow> (error + event list \<times> 'd AudioSystem) option" where
  "process_context ops fuel s n =
     (let context = xma_context_array s n in
      if \<not> in_use context then Some (Inr ([], s))
      else
        let ptr = TranslatePhysical (guest_ptr context);
            data = XMA_CONTEXT_DATA_load (memory s) ptr
        in if get_field data input_buffer_0_valid \<noteq> 0 \<or> get_field data input_buffer_1_valid \<noteq> 0
           then
             let data1 = set_field data input_buffer_0_valid 0;
                 data2 = set_field data1 input_buffer_1_valid 0;
                 data3 = set_field data2 output_buffer_valid 0;
                 in0 = TranslatePhysical (get_field data3 input_buffer_0_ptr);
                 out = TranslatePhysical (get_field data3 output_buffer_ptr)
             in if get_field data3 input_buffer_1_packet_count \<noteq> 0 then Some (Inl AssertionFailed)
                else
                  (case decode_loop ops fuel in0 out data3 (decoder context) (memory s) of
                     None \<Rightarrow> None
                   | Some (evs, k, data4, dec', m') \<Rightarrow>
                       Some (Inr (evs,
                         s\<lparr>xma_context_array := (xma_context_array s)
                               (n := context\<lparr>decoder := dec'\<rparr>),
                           memory := Store data4 m' ptr\<rparr>)))
           else Some (Inr ([], s)))"

text \<open>The record a pass works on: the record of context \<open>n\<close> as loaded from guest memory,
  with the three valid flags reset.\<close>

definition claimed_data :: "'d AudioSystem \<Rightarrow> nat \<Rightarrow> XMA_CONTEXT_DATA" where
  "claimed_data s n =
     set_field (set_field (set_field
       (XMA_CONTEXT_DATA_load (memory s) (TranslatePhysical (guest_ptr (xma_context_array s n))))
       input_buffer_0_valid 0) input_buffer_1_valid 0) output_buffer_valid 0"

text \<open>The fields of the record that \<open>process_context\<close> assigns to.\<close>

definition decoder_written_fields :: "field set" where
  "decoder_written_fields =
     {input_buffer_0_valid, input_buffer_1_valid, output_buffer_valid,
      input_buffer_read_offset, output_buffer_write_offset}"

text \<open>A decoder with a fixed ratio of output to input: every 2048-byte packet gives
  \<open>blocks_per_packet\<close> blocks of 256 bytes of samples. Its state is the number of blocks of the
  current packet not yet emitted; \<open>DecodePacket\<close> emits as many of them as fit in the size it
  is given and reports 0 once the packet is used up.\<close>

definition fixed_ratio_decoder :: "nat \<Rightarrow> nat AudioDecoder" where
  "fixed_ratio_decoder blocks_per_packet =
     \<lparr>DecodePacket = (\<lambda>pending m output offset size.
          (int (min pending (size div 256) * 256), pending - min pending (size div 256), m)),
      PreparePacket = (\<lambda>pending m packet size sample_rate channels. blocks_per_packet),
      DiscardPacket = (\<lambda>pending. 0)\<rparr>"

text \<open>A decoder that fails on every packet and shows what was done to it: its state is
  whether a packet is in flight and how many calls of \<open>DecodePacket\<close> have failed, and a
  failed call leaves a byte \<open>0xEE\<close> at the place in the output it was given.\<close>

definition corrupt_packet_decoder :: "(bool \<times> nat) AudioDecoder" where
  "corrupt_packet_decoder =
     \<lparr>DecodePacket = (\<lambda>d m output offset size.
          (- 1, (True, Suc (snd d)), m(output + offset := 0xEE))),
      PreparePacket = (\<lambda>d m packet size sample_rate channels. (True, snd d)),
      DiscardPacket = (\<lambda>d. (False, snd d))\<rparr>"

text \<open>What the termination result asks of the decoder: a positive result is a whole number
  of 256-byte blocks and is not larger than the size it was given.\<close>

definition emits_whole_blocks :: "'d AudioDecoder \<Rightarrow> bool" where
  "emits_whole_blocks ops \<longleftrightarrow>
     (\<forall>dec m output offset size.
        case DecodePacket ops dec m output offset size of
          (read, dec', m') \<Rightarrow> 0 < read \<longrightarrow> nat read \<le> size \<and> 256 dvd read)"

text \<open>The records the termination result is about: sixteen words, the second input buffer
  empty (the assertion before the loop), the read offset past the 32-bit header and at a
  packet boundary inside the input, the write offset inside the output. \<open>loop_bound\<close> counts
  the packets left in the input and the blocks left in the output.\<close>

definition loop_ready :: "XMA_CONTEXT_DATA \<Rightarrow> bool" where
  "loop_ready data \<longleftrightarrow>
     length data = 16
     \<and> get_field data input_buffer_1_packet_count = 0
     \<and> 32 \<le> unat (get_field data input_buffer_read_offset)
     \<and> loop_input_offset data \<le> loop_input_size data
     \<and> 2048 dvd (loop_input_size data - loop_input_offset data)
     \<and> loop_output_offset data \<le> loop_output_size data"

definition loop_bound :: "XMA_CONTEXT_DATA \<Rightarrow> nat" where
  "loop_bound data =
     (loop_input_size data - loop_input_offset data) div 2048
     + (loop_output_size data - loop_output_offset data) div 256"


section \<open>NtWriteFile (xboxkrnl\_io.cc)\<close>

text \<open>The kernel state the shim touches: the object table, guest memory, and a log of the
  calls of \<open>XFile::Write\<close> (handle of the file, host buffer, length, byte offset). An object
  is an event, with whether it is signalled, or a file with a state \<open>'f\<close>.
  \<open>LookupObject<T>\<close> gives the null reference for a handle that is not in the table or
  names an object of another type.\<close>

datatype 'f object = XEvent bool | XFile 'f

record 'f KernelState =
  object_table :: "u32 \<Rightarrow> 'f object option"
  kernel_memory :: memory
  file_writes :: "(u32 \<times> nat \<times> u32 \<times> u64) list"

definition LookupObject_XEvent :: "'f KernelState \<Rightarrow> u32 \<Rightarrow> bool option" where
  "LookupObject_XEvent s handle =
     (case object_table s handle of Some (XEvent signalled) \<Rightarrow> Some signalled | _ \<Rightarrow> None)"

definition LookupObject_XFile :: "'f KernelState \<Rightarrow> u32 \<Rightarrow> 'f option" where
  "LookupObject_XFile s handle =
     (case object_table s handle of Some (XFile f) \<Rightarrow> Some f | _ \<Rightarrow> None)"

text \<open>Modelled from the spec: the shim macros (xenia/kernel/util/shim\_utils.h is not part of
  the excerpt) read and write guest memory in big-endian order: \<open>SHIM_MEM_64\<close> loads eight
  bytes, \<open>SHIM_SET_MEM_32\<close> stores four, \<open>SHIM_MEM_ADDR\<close> is the host pointer of a guest
  address.\<close>

definition SHIM_MEM_64 :: "memory \<Rightarrow> u32 \<Rightarrow> u64" where
  "SHIM_MEM_64 m a =
     push_bit 32 (ucast (byte_swap (load_u32 m (unat a))))
     OR ucast (byte_swap (load_u32 m (unat a + 4)))"

definition SHIM_SET_MEM_32 :: "memory \<Rightarrow> u32 \<Rightarrow> u32 \<Rightarrow> memory" where
  "SHIM_SET_MEM_32 m a v = store_u32 m (unat a) (byte_swap v)"

definition SHIM_MEM_ADDR :: "u32 \<Rightarrow> nat" where
  "SHIM_MEM_ADDR a = unat a"

text \<open>\<open>XFile::Write\<close> is a parameter: from the file, guest memory, the host buffer, the length
  and the byte offset it gives the status, the number of bytes written and the file after
  the write.\<close>

type_synonym 'f file_write = "'f \<Rightarrow> memory \<Rightarrow> nat \<Rightarrow> u32 \<Rightarrow> u64 \<Rightarrow> X_STATUS \<times> nat \<times> 'f"

text \<open>The end of the shim, shared by all paths: the I/O status block, the event, the
  result.\<close>

definition NtWriteFile_finish ::
  "'f KernelState \<Rightarrow> u32 \<Rightarrow> u32 \<Rightarrow> bool \<Rightarrow> bool \<Rightarrow> X_STATUS \<Rightarrow> u32
     \<Rightarrow> X_STATUS \<times> 'f KernelState" where
  "NtWriteFile_finish s event_handle io_status_block_ptr ev_valid signal_event result info =
     (let s1 = (if io_status_block_ptr \<noteq> 0 then
                  s\<lparr>kernel_memory :=
                      SHIM_SET_MEM_32
                        (SHIM_SET_MEM_32 (kernel_memory s) io_status_block_ptr result)
                        (io_status_block_ptr + 4) info\<rparr>
                else s);
          s2 = (if ev_valid \<and> signal_event then
                  s1\<lparr>object_table := (object_table s1)(event_handle \<mapsto> XEvent True)\<rparr>
                else s1)
      in (result, s2))"

definition NtWriteFile_shim ::
  "'f file_write \<Rightarrow> 'f KernelState \<Rightarrow> u32 \<Rightarrow> u32 \<Rightarrow> u32 \<Rightarrow> u32 \<Rightarrow> u32 \<Rightarrow> u32 \<Rightarrow> u32 \<Rightarrow> u32
     \<Rightarrow> error + (X_STATUS \<times> 'f KernelState)" where
  "NtWriteFile_shim Write s file_handle event_handle apc_routine_ptr apc_context
       io_status_block_ptr buffer buffer_length byte_offset_ptr =
     (let byte_offset = (if byte_offset_ptr \<noteq> 0
                         then SHIM_MEM_64 (kernel_memory s) byte_offset_ptr else 0)
      in if apc_routine_ptr \<noteq> 0 then Inl AssertionFailed
         else
           let ev = (if event_handle \<noteq> 0 then LookupObject_XEvent s event_handle else None);
               result1 = (if event_handle \<noteq> 0 \<and> ev = None then X_STATUS_INVALID_HANDLE
                          else X_STATUS_SUCCESS);
               file = LookupObject_XFile s file_handle;
               result2 = (if ev = None then X_STATUS_INVALID_HANDLE else result1)
           in if XSUCCEEDED result2 then
                (let s1 = (if ev \<noteq> None
                           then s\<lparr>object_table := (object_table s)(event_handle \<mapsto> XEvent False)\<rparr>
                           else s);
                     byte_offset1 = (if byte_offset_ptr = 0 \<or> byte_offset = 0xFFFFFFFFFFFFFFFE
                                     then - 1 else byte_offset)
                 in case file of
                      None \<Rightarrow> Inl NullReference
                    | Some f \<Rightarrow>
                        (case Write f (kernel_memory s1) (SHIM_MEM_ADDR buffer) buffer_length
                                byte_offset1 of
                           (result3, bytes_written, f') \<Rightarrow>
                             let s2 = s1\<lparr>object_table :=
                                          (object_table s1)(file_handle \<mapsto> XFile f'),
                                        file_writes := file_writes s1 @
                                          [(file_handle, SHIM_MEM_ADDR buffer, buffer_length,
                                            byte_offset1)]\<rparr>;
                                 info = (if XSUCCEEDED result3 then of_nat bytes_written else 0)
                             in Inr (NtWriteFile_finish s2 event_handle io_status_block_ptr
                                       (ev \<noteq> None) True result3 info)))
              else Inr (NtWriteFile_finish s event_handle io_status_block_ptr
                          (ev \<noteq> None) False result2 0))"


section \<open>Example states\<close>

text \<open>The state the constructor \<open>AudioSystem::AudioSystem\<close> leaves: the client table zeroed,
  every client index in the free queue, every event created unsignalled. The members the
  constructor does not initialise are given zeroes; \<open>new_decoder\<close> fills the decoder of every
  slot.\<close>

definition AudioSystem_new :: "nat \<Rightarrow> 'd \<Rightarrow> 'd AudioSystem" where
  "AudioSystem_new maximum_client_count new_decoder =
     \<lparr>xma_context_array = (\<lambda>n. \<lparr>guest_ptr = 0, in_use = False, decoder = new_decoder\<rparr>),
      xma_context_array_ptr = 0, current_context = 0, next_context = 0,
      register_file = (\<lambda>n. 0), memory = (\<lambda>a. 0), decoder_fence = 0,
      clients = (\<lambda>n. \<lparr>driver = 0, callback = 0, callback_arg = 0, wrapped_callback_arg = 0\<rparr>),
      unused_clients = [0..<maximum_client_count],
      client_wait_handles = (\<lambda>n. False), submitted_frames = []\<rparr>"

text \<open>A system with eight client slots after \<open>Setup\<close>, its context array at guest address
  \<open>0x40000\<close>.\<close>

definition started_system :: "'d \<Rightarrow> 'd AudioSystem" where
  "started_system new_decoder = Setup 0x40000 new_decoder (AudioSystem_new 8 new_decoder)"

text \<open>The same system with every context in use, and with every client slot taken (the free
  queue empty, as after eight registrations).\<close>

definition full_pool_system :: "'d \<Rightarrow> 'd AudioSystem" where
  "full_pool_system new_decoder =
     (started_system new_decoder)
       \<lparr>xma_context_array :=
          (\<lambda>n. (xma_context_array (started_system new_decoder) n)\<lparr>in_use := True\<rparr>)\<rparr>"

definition exhausted_system :: "'d \<Rightarrow> 'd AudioSystem" where
  "exhausted_system new_decoder = (started_system new_decoder)\<lparr>unused_clients := []\<rparr>"

text \<open>A \<open>CreateDriver\<close> that succeeds and one that fails.\<close>

definition working_driver :: "nat \<Rightarrow> X_STATUS \<times> u64" where
  "working_driver index = (X_STATUS_SUCCESS, 0x1000 + of_nat index)"

definition broken_driver :: "nat \<Rightarrow> X_STATUS \<times> u64" where
  "broken_driver index = (0xC0000001, 0)"

text \<open>A kernel state with an event at handle \<open>0x10\<close> and a file at handle \<open>0x20\<close>, and a
  file whose \<open>Write\<close> takes every byte it is given.\<close>

definition example_kernel :: "unit KernelState" where
  "example_kernel =
     \<lparr>object_table = [0x10 \<mapsto> XEvent False, 0x20 \<mapsto> XFile ()],
      kernel_memory = (\<lambda>a. 0), file_writes = []\<rparr>"

definition accepting_file :: "unit file_write" where
  "accepting_file f m buffer buffer_length byte_offset = (X_STATUS_SUCCESS, unat buffer_length, f)"

text \<open>A record as a guest leaves it before a kick takes effect in the decoder: one input
  packet in buffer 0 at \<open>0x1000\<close> (\<open>packets\<close> of them in general), buffer 0 valid, the read
  offset just past the 32-bit header, \<open>blocks\<close> output blocks at \<open>0x3000\<close>, write offset 0.\<close>

definition kicked_record :: "u32 \<Rightarrow> u32 \<Rightarrow> XMA_CONTEXT_DATA" where
  "kicked_record packets blocks =
     [packets OR push_bit 20 1 OR push_bit 22 blocks, 0, 0x20, 0, 0, 0x1000, 0, 0x3000,
      0, 0, 0, 0, 0, 0, 0, 0]"

text \<open>The started system with context 0 allocated and its guest record holding
  \<open>kicked_record 1 1\<close>.\<close>

definition decoding_system :: "'d \<Rightarrow> 'd AudioSystem" where
  "decoding_system new_decoder =
     (started_system new_decoder)
       \<lparr>xma_context_array := (xma_context_array (started_system new_decoder))
            (0 := \<lparr>guest_ptr = 0x40000, in_use = True, decoder = new_decoder\<rparr>),
        memory := Store (kicked_record 1 1) (\<lambda>a. 0) 0x40000\<rparr>"

text \<open>The record the inner loop starts from when the guest record was \<open>kicked_record 2 31\<close>:
  two packets of input (4096 bytes), 31 blocks of output (7936 bytes), the valid flags
  cleared by the pass.\<close>

definition two_packet_record :: XMA_CONTEXT_DATA where
  "two_packet_record =
     [0x07C00002, 0, 0x20, 0, 0, 0x1000, 0, 0x3000, 0, 0, 0, 0, 0, 0, 0, 0]"

text \<open>The started system with client 0 registered (driver, callback \<open>0x82000000\<close>, wrapped
  argument at \<open>0x50000\<close>) and its wait handle signalled by the driver.\<close>

definition signalled_system :: "unit AudioSystem" where
  "signalled_system =
     (started_system ())
       \<lparr>clients := (clients (started_system ()))
            (0 := \<lparr>driver = 0x1000, callback = 0x82000000, callback_arg = 0x1234,
                   wrapped_callback_arg = 0x50000\<rparr>),
        unused_clients := [1..<8],
        client_wait_handles := (\<lambda>n. n = 0)\<rparr>"

text \<open>The started system before any context was allocated, with guest memory that is not
  zero (every byte \<open>0xAB\<close>) and every decoder holding five blocks of a packet.\<close>

definition untouched_system :: "nat AudioSystem" where
  "untouched_system = (started_system 5)\<lparr>memory := (\<lambda>a. 0xAB)\<rparr>"


section \<open>Properties of byte order and of the context data record\<close>

lemma byte_of_word_of_bytes:
  "byte_of (word_of_bytes b0 b1 b2 b3) 0 = b0"
  "byte_of (word_of_bytes b0 b1 b2 b3) (Suc 0) = b1"
  "byte_of (word_of_bytes b0 b1 b2 b3) 1 = b1"
  "byte_of (word_of_bytes b0 b1 b2 b3) 2 = b2"
  "byte_of (word_of_bytes b0 b1 b2 b3) 3 = b3"
  unfolding byte_of_def word_of_bytes_def
  by (rule bit_word_eqI; simp add: bit_simps; fastforce dest: bit_imp_le_length)+

lemma word_of_bytes_byte_of:
  "word_of_bytes (byte_of w 0) (byte_of w (Suc 0)) (byte_of w 2) (byte_of w 3) = w"
  unfolding byte_of_def word_of_bytes_def
  apply (rule bit_word_eqI)
  subgoal for n
    apply (cases "n < 8"; cases "n < 16"; cases "n < 24")
           apply (simp_all add: bit_simps)
      apply linarith+
    done
  done

lemma byte_swap_involution: "byte_swap (byte_swap v) = v"
  by (simp add: byte_swap_def byte_of_word_of_bytes word_of_bytes_byte_of)

lemma copy_and_swap_involution: "copy_and_swap (copy_and_swap ws) = ws"
  by (simp add: copy_and_swap_def byte_swap_involution comp_def)

lemma store_u32_load_u32: "store_u32 m a (load_u32 m a) = m"
  unfolding store_u32_def load_u32_def
  by (rule ext) (simp add: byte_of_word_of_bytes)

lemma load_u32_store_u32: "load_u32 (store_u32 m a w) a = w"
  unfolding store_u32_def load_u32_def
  by (simp add: word_of_bytes_byte_of)

lemma store_u32_other: "b < a \<or> a + 4 \<le> b \<Longrightarrow> store_u32 m a w b = m b"
  unfolding store_u32_def by auto

lemma store_words_other:
  "b < p \<or> p + 4 * length ws \<le> b \<Longrightarrow> store_words m p ws b = m b"
  by (induction ws arbitrary: m p) (auto simp: store_u32_other)

lemma load_u32_cong:
  assumes "\<And>k. k < 4 \<Longrightarrow> m (a + k) = m' (a + k)"
  shows "load_u32 m a = load_u32 m' a"
  using assms [of 0] assms [of 1] assms [of 2] assms [of 3]
  by (simp add: load_u32_def)

lemma load_u32_store_words_other:
  assumes "b + 4 \<le> p \<or> p + 4 * length ws \<le> b"
  shows "load_u32 (store_words m p ws) b = load_u32 m b"
  using assms by (intro load_u32_cong store_words_other) auto

lemma load_words_Suc:
  "load_words m p (Suc n) = load_u32 m p # load_words m (p + 4) n"
proof -
  have "[0..<Suc n] = 0 # map Suc [0..<n]"
    by (simp add: upt_conv_Cons map_Suc_upt del: upt_Suc)
  then show ?thesis
    by (simp add: load_words_def comp_def add.assoc del: upt_Suc)
qed

lemma load_words_store_words:
  "load_words (store_words m p ws) p (length ws) = ws"
proof (induction ws arbitrary: m p)
  case Nil
  show ?case by (simp add: load_words_def)
next
  case (Cons w ws)
  have "load_u32 (store_words (store_u32 m p w) (p + 4) ws) p = load_u32 (store_u32 m p w) p"
    by (rule load_u32_store_words_other) simp
  then show ?case
    by (simp add: load_words_Suc load_u32_store_u32 Cons.IH)
qed

lemma store_words_load_words: "store_words m p (load_words m p n) = m"
  by (induction n arbitrary: m p) (simp_all add: load_words_def [of _ _ 0] load_words_Suc store_u32_load_u32)

lemma length_XMA_CONTEXT_DATA_load: "length (XMA_CONTEXT_DATA_load m p) = 16"
  by (simp add: XMA_CONTEXT_DATA_load_def copy_and_swap_def load_words_def sizeof_XMA_CONTEXT_DATA_def)

lemma Store_load: "Store (XMA_CONTEXT_DATA_load m p) m p = m"
  using length_XMA_CONTEXT_DATA_load [of m p]
  by (simp add: Store_def sizeof_XMA_CONTEXT_DATA_def)
     (simp add: XMA_CONTEXT_DATA_load_def copy_and_swap_involution store_words_load_words)

lemma load_Store:
  assumes "length d = 16"
  shows "XMA_CONTEXT_DATA_load (Store d m p) p = d"
proof -
  have "load_words (store_words m p (copy_and_swap d)) p (length (copy_and_swap d)) = copy_and_swap d"
    by (rule load_words_store_words)
  moreover have "length (copy_and_swap d) = 16"
    using assms by (simp add: copy_and_swap_def)
  ultimately show ?thesis
    using assms
    by (simp add: Store_def XMA_CONTEXT_DATA_load_def sizeof_XMA_CONTEXT_DATA_def
        copy_and_swap_involution)
qed

lemma Store_other:
  assumes "b < p \<or> p + 64 \<le> b"
  shows "Store d m p b = m b"
proof -
  have "length (copy_and_swap (take 16 d)) \<le> 16"
    by (simp add: copy_and_swap_def)
  with assms show ?thesis
    unfolding Store_def sizeof_XMA_CONTEXT_DATA_def
    by (intro store_words_other) auto
qed

lemma load_Store_other:
  assumes "q + 64 \<le> p \<or> p + 64 \<le> q"
  shows "XMA_CONTEXT_DATA_load (Store d m p) q = XMA_CONTEXT_DATA_load m q"
proof -
  have "load_u32 (Store d m p) (q + 4 * i) = load_u32 m (q + 4 * i)" if "i < 16" for i
    using assms that
    by (intro load_u32_cong Store_other) auto
  then have "map (\<lambda>i. load_u32 (Store d m p) (q + 4 * i)) [0..<16]
      = map (\<lambda>i. load_u32 m (q + 4 * i)) [0..<16]"
    by (intro map_cong) auto
  moreover have "sizeof_XMA_CONTEXT_DATA div 4 = 16"
    by (simp add: sizeof_XMA_CONTEXT_DATA_def)
  ultimately show ?thesis
    by (simp only: XMA_CONTEXT_DATA_load_def load_words_def)
qed

lemma field_fits: "field_shift f + field_width f \<le> 32"
  by (cases f) simp_all

lemma field_dword_lt: "field_dword f < 16"
  by (cases f) simp_all

lemma length_set_field: "length (set_field d f v) = length d"
  by (simp add: set_field_def)

lemma bf_get_set:
  "off + w \<le> 32 \<Longrightarrow>
   take_bit w (drop_bit off ((x AND NOT (push_bit off (mask w))) OR push_bit off (take_bit w v)))
     = take_bit w (v::u32)"
  apply (rule bit_word_eqI)
  apply (simp add: bit_simps)
  apply (auto dest: bit_imp_le_length)
  done

lemma bf_get_set_other:
  "off + w \<le> off' \<or> off' + w' \<le> off \<Longrightarrow>
   take_bit w' (drop_bit off' ((x AND NOT (push_bit off (mask w))) OR push_bit off (take_bit w v)))
     = take_bit w' (drop_bit off' (x::u32))"
  apply (rule bit_word_eqI)
  apply (simp add: bit_simps)
  apply (auto dest: bit_imp_le_length)
  done

lemma get_set_field_same:
  assumes "length d = 16"
  shows "get_field (set_field d f v) f = take_bit (field_width f) v"
proof -
  have "field_dword f < length d" using assms field_dword_lt [of f] by simp
  then show ?thesis
    unfolding get_field_def set_field_def
    by (simp only: nth_list_update_eq bf_get_set [OF field_fits])
qed

lemma get_set_field_other:
  assumes "field_dword f \<noteq> field_dword g \<or> field_shift f + field_width f \<le> field_shift g
           \<or> field_shift g + field_width g \<le> field_shift f"
  shows "get_field (set_field d f v) g = get_field d g"
proof (cases "field_dword f = field_dword g")
  case False
  then show ?thesis by (simp add: get_field_def set_field_def)
next
  case same: True
  show ?thesis
  proof (cases "field_dword f < length d")
    case False
    then show ?thesis by (simp add: get_field_def set_field_def list_update_beyond)
  next
    case True
    from same assms have "field_shift f + field_width f \<le> field_shift g
           \<or> field_shift g + field_width g \<le> field_shift f" by simp
    then show ?thesis
      unfolding get_field_def set_field_def same using True same
      by (simp only: nth_list_update_eq bf_get_set_other)
  qed
qed
lemma take_bit_unat_less: "unat (v :: u32) < 2 ^ n \<Longrightarrow> take_bit n v = v"
  by (simp add: word_unat_eq_iff unsigned_take_bit_eq take_bit_nat_eq_self)

text \<open>Claim C3. A record loaded from guest memory (the sixteen words byte-swapped) and stored
  back gives the memory it was loaded from, byte for byte; the whole-record swap is an
  involution; a structure of sixteen words stored and loaded again is the same structure;
  and a value in the range of a field, assigned to the field, stored and loaded again, is
  read back from the field unchanged.\<close>

theorem XMA_CONTEXT_DATA_roundtrip:
  "Store (XMA_CONTEXT_DATA_load m ptr) m ptr = m
   \<and> copy_and_swap (copy_and_swap ws) = ws
   \<and> (length d = 16 \<longrightarrow> XMA_CONTEXT_DATA_load (Store d m ptr) ptr = d)
   \<and> (length d = 16 \<and> unat v < 2 ^ field_width f \<longrightarrow>
        get_field (XMA_CONTEXT_DATA_load (Store (set_field d f v) m ptr) ptr) f = v)"
proof -
  have "get_field (XMA_CONTEXT_DATA_load (Store (set_field d f v) m ptr) ptr) f = v"
    if len: "length d = 16" and range: "unat v < 2 ^ field_width f"
  proof -
    have "take_bit (field_width f) v = v"
      using range by (rule take_bit_unat_less)
    then show ?thesis
      using len by (simp add: load_Store length_set_field get_set_field_same)
  qed
  then show ?thesis
    by (simp add: Store_load copy_and_swap_involution load_Store)
qed

theorem XMA_CONTEXT_DATA_roundtrip_witness:
  "length (replicate 16 (0 :: u32)) = 16
   \<and> unat (0x3FFFFFF :: u32) < 2 ^ field_width input_buffer_read_offset
   \<and> get_field (XMA_CONTEXT_DATA_load
         (Store (set_field (replicate 16 0) input_buffer_read_offset 0x3FFFFFF) (\<lambda>a. 0) 4096)
         4096) input_buffer_read_offset = 0x3FFFFFF"
  using XMA_CONTEXT_DATA_roundtrip
    [where d = "replicate 16 0" and f = input_buffer_read_offset and v = "0x3FFFFFF"
       and m = "\<lambda>a. 0" and ptr = 4096]
  by simp

section \<open>Properties of the context pool\<close>

lemma Setup_loop_nth:
  "Setup_loop n p d arr k =
     (if k < n then \<lparr>guest_ptr = p + of_nat k * of_nat kXmaContextSize, in_use = False, decoder = d\<rparr>
      else arr k)"
  by (induction n arbitrary: arr) (auto simp: less_Suc_eq)

lemma Setup_context:
  "k < kXmaContextCount \<Longrightarrow>
   xma_context_array (Setup p d s) k = \<lparr>guest_ptr = p + of_nat k * 64, in_use = False, decoder = d\<rparr>"
  by (simp add: Setup_def Setup_loop_nth kXmaContextSize_def)

lemma context_offsets_distinct:
  assumes "i < kXmaContextCount" "j < kXmaContextCount"
    and "(p :: u32) + of_nat i * 64 = p + of_nat j * 64"
  shows "i = j"
proof -
  have "(of_nat (i * 64) :: u32) = of_nat (j * 64)"
    using assms(3) by simp
  then have "take_bit LENGTH(32) (i * 64) = take_bit LENGTH(32) (j * 64)"
    by (rule word_of_nat_eq_iff [THEN iffD1])
  moreover have "i * 64 < 2 ^ 32" "j * 64 < 2 ^ 32"
    using assms(1,2) by (simp_all add: kXmaContextCount_def)
  ultimately have "i * 64 = j * 64"
    by (simp add: take_bit_nat_eq_self)
  then show ?thesis by simp
qed

lemma Setup_guest_ptr_inj:
  "inj_on (\<lambda>k. guest_ptr (xma_context_array (Setup p d s) k)) {..<kXmaContextCount}"
  by (rule inj_onI) (auto simp: Setup_context dest: context_offsets_distinct)

lemma AllocateXmaContext_loop_find:
  "AllocateXmaContext_loop n arr =
     (case find (\<lambda>k. \<not> in_use (arr k)) [n..<kXmaContextCount] of
        None \<Rightarrow> (0, arr)
      | Some k \<Rightarrow> (guest_ptr (arr k), arr(k := (arr k)\<lparr>in_use := True\<rparr>)))"
proof (induction n arr rule: AllocateXmaContext_loop.induct)
  case (1 n arr)
  show ?case
  proof (cases "n < kXmaContextCount")
    case False
    then show ?thesis by (subst AllocateXmaContext_loop.simps) simp
  next
    case True
    then have upt: "[n..<kXmaContextCount] = n # [n + 1..<kXmaContextCount]"
      by (simp add: upt_conv_Cons)
    show ?thesis
    proof (cases "in_use (arr n)")
      case False
      with True upt show ?thesis by (subst AllocateXmaContext_loop.simps) simp
    next
      case used: True
      with True upt "1.IH" show ?thesis by (subst AllocateXmaContext_loop.simps) simp
    qed
  qed
qed

lemma AllocateXmaContext_find:
  "AllocateXmaContext s =
     (case find (\<lambda>k. \<not> in_use (xma_context_array s k)) [0..<kXmaContextCount] of
        None \<Rightarrow> (0, s)
      | Some k \<Rightarrow> (guest_ptr (xma_context_array s k),
                   s\<lparr>xma_context_array :=
                       (xma_context_array s)(k := (xma_context_array s k)\<lparr>in_use := True\<rparr>)\<rparr>))"
  unfolding AllocateXmaContext_def AllocateXmaContext_loop_find
  apply (cases "find (\<lambda>k. \<not> in_use (xma_context_array s k)) [0..<kXmaContextCount]")
   apply (simp_all only: option.case prod.case)
  apply simp
  done

lemma find_upt_Some:
  "find P [m..<n] = Some k \<Longrightarrow> m \<le> k \<and> k < n \<and> P k"
  by (auto simp: find_Some_iff)

lemma AllocateXmaContext_None:
  assumes "find (\<lambda>k. \<not> in_use (xma_context_array s k)) [0..<kXmaContextCount] = None"
  shows "AllocateXmaContext s = (0, s)"
  by (simp only: AllocateXmaContext_find assms option.case)

lemma AllocateXmaContext_Some:
  assumes "find (\<lambda>k. \<not> in_use (xma_context_array s k)) [0..<kXmaContextCount] = Some k"
  shows "AllocateXmaContext s =
     (guest_ptr (xma_context_array s k),
      s\<lparr>xma_context_array := (xma_context_array s)(k := (xma_context_array s k)\<lparr>in_use := True\<rparr>)\<rparr>)"
  by (simp only: AllocateXmaContext_find assms option.case)

lemma AllocateXmaContext_twice:
  assumes inj: "inj_on (\<lambda>k. guest_ptr (xma_context_array s k)) {..<kXmaContextCount}"
    and a1: "AllocateXmaContext s = (p1, s1)"
    and a2: "AllocateXmaContext s1 = (p2, s2)"
    and nz: "p1 \<noteq> 0"
  shows "p1 \<noteq> p2"
proof (cases "find (\<lambda>k. \<not> in_use (xma_context_array s k)) [0..<kXmaContextCount]")
  case None
  from a1 nz show ?thesis unfolding AllocateXmaContext_None [OF None] by simp
next
  case (Some k1)
  then have k1: "k1 < kXmaContextCount" by (auto dest: find_upt_Some)
  from a1 have p1: "p1 = guest_ptr (xma_context_array s k1)"
    and s1: "xma_context_array s1 = (xma_context_array s)(k1 := (xma_context_array s k1)\<lparr>in_use := True\<rparr>)"
    unfolding AllocateXmaContext_Some [OF Some] by auto
  show ?thesis
  proof (cases "find (\<lambda>k. \<not> in_use (xma_context_array s1 k)) [0..<kXmaContextCount]")
    case None
    from a2 nz show ?thesis unfolding AllocateXmaContext_None [OF None] by simp
  next
    case (Some k2)
    then have k2: "k2 < kXmaContextCount" "\<not> in_use (xma_context_array s1 k2)"
      by (auto dest: find_upt_Some)
    then have ne: "k2 \<noteq> k1" using s1 by auto
    from a2 have "p2 = guest_ptr (xma_context_array s1 k2)"
      unfolding AllocateXmaContext_Some [OF Some] by simp
    with ne s1 have "p2 = guest_ptr (xma_context_array s k2)" by simp
    with p1 ne k1 k2 inj show ?thesis
      by (auto simp: inj_on_def)
  qed
qed

lemma started_system_context:
  "k < kXmaContextCount \<Longrightarrow>
   xma_context_array (started_system d) k
     = \<lparr>guest_ptr = 0x40000 + of_nat k * 64, in_use = False, decoder = d\<rparr>"
  by (simp add: started_system_def Setup_context)

lemma started_system_first_free:
  "find (\<lambda>k. \<not> in_use (xma_context_array (started_system d) k)) [0..<kXmaContextCount] = Some 0"
proof -
  have "[0..<kXmaContextCount] = 0 # [1..<kXmaContextCount]"
    by (simp add: kXmaContextCount_def upt_conv_Cons)
  moreover have "\<not> in_use (xma_context_array (started_system d) 0)"
    by (simp add: started_system_context kXmaContextCount_def)
  ultimately show ?thesis by simp
qed

text \<open>Claim C5. \<open>AllocateXmaContext\<close> returns the guest address of the first slot, in slot
  order, that is not in use and marks that slot used, leaving every other slot and the rest
  of the state as they are; when every slot is in use it returns zero and changes nothing.
  When the guest addresses of the slots are distinct, as \<open>Setup\<close> makes them, two calls in a
  row do not return the same non-zero address.\<close>

theorem AllocateXmaContext_first_free:
  "AllocateXmaContext s =
     (case find (\<lambda>k. \<not> in_use (xma_context_array s k)) [0..<kXmaContextCount] of
        None \<Rightarrow> (0, s)
      | Some k \<Rightarrow> (guest_ptr (xma_context_array s k),
                   s\<lparr>xma_context_array :=
                       (xma_context_array s)(k := (xma_context_array s k)\<lparr>in_use := True\<rparr>)\<rparr>))
   \<and> (inj_on (\<lambda>k. guest_ptr (xma_context_array s k)) {..<kXmaContextCount}
        \<and> AllocateXmaContext s = (p1, s1) \<and> AllocateXmaContext s1 = (p2, s2) \<and> p1 \<noteq> 0
        \<longrightarrow> p1 \<noteq> p2)"
  using AllocateXmaContext_find [of s] AllocateXmaContext_twice [of s p1 s1 p2 s2]
  by blast

theorem AllocateXmaContext_first_free_witness:
  "inj_on (\<lambda>k. guest_ptr (xma_context_array (started_system ()) k)) {..<kXmaContextCount}
   \<and> fst (AllocateXmaContext (started_system ())) = 0x40000
   \<and> fst (AllocateXmaContext (started_system ()))
       \<noteq> fst (AllocateXmaContext (snd (AllocateXmaContext (started_system ()))))"
proof -
  let ?s = "started_system ()"
  have inj: "inj_on (\<lambda>k. guest_ptr (xma_context_array ?s k)) {..<kXmaContextCount}"
    unfolding started_system_def by (rule Setup_guest_ptr_inj)
  have p1: "fst (AllocateXmaContext ?s) = 0x40000"
    unfolding AllocateXmaContext_Some [OF started_system_first_free]
    by (simp add: started_system_context kXmaContextCount_def)
  have "fst (AllocateXmaContext ?s) \<noteq> fst (AllocateXmaContext (snd (AllocateXmaContext ?s)))"
    apply (rule AllocateXmaContext_first_free
      [of ?s "fst (AllocateXmaContext ?s)" "snd (AllocateXmaContext ?s)"
          "fst (AllocateXmaContext (snd (AllocateXmaContext ?s)))"
          "snd (AllocateXmaContext (snd (AllocateXmaContext ?s)))", THEN conjunct2, THEN mp])
    using inj p1 apply (simp add: prod_eq_iff)
    done
  with inj p1 show ?thesis by simp
qed

lemma memset_idem: "memset (memset m p v n) p v n = memset m p v n"
  by (rule ext) (simp add: memset_def)

lemma released_beyond:
  assumes "kXmaContextCount \<le> n"
  shows "released ops ptr n s = s"
  unfolding released_def using assms
  by (intro AudioSystem.equality) (auto simp: fun_eq_iff)

lemma released_skip:
  assumes "n < kXmaContextCount" "guest_ptr (xma_context_array s n) \<noteq> ptr"
  shows "released ops ptr n s = released ops ptr (Suc n) s"
proof -
  have "(n \<le> k \<and> k < kXmaContextCount \<and> guest_ptr (xma_context_array s k) = ptr)
      = (Suc n \<le> k \<and> k < kXmaContextCount \<and> guest_ptr (xma_context_array s k) = ptr)" for k
    using assms by (cases "k = n") auto
  then show ?thesis unfolding released_def by (simp only:)
qed

lemma released_hit:
  assumes "n < kXmaContextCount" "guest_ptr (xma_context_array s n) = ptr"
  shows "released ops ptr n s =
     released ops ptr (Suc n)
       (s\<lparr>xma_context_array := (xma_context_array s)
             (n := (xma_context_array s n)\<lparr>in_use := False,
                    decoder := DiscardPacket ops (decoder (xma_context_array s n))\<rparr>),
          memory := memset (memory s) (TranslateVirtual ptr) 0 kXmaContextSize\<rparr>)"
proof -
  have ex: "\<exists>k. n \<le> k \<and> k < kXmaContextCount \<and> guest_ptr (xma_context_array s k) = ptr"
    using assms by auto
  show ?thesis
    unfolding released_def using assms ex
    by (auto simp: fun_eq_iff memset_idem intro!: AudioSystem.equality)
qed

lemma ReleaseXmaContext_loop_released:
  "ReleaseXmaContext_loop ops ptr n s = released ops ptr n s"
proof (induction ops ptr n s rule: ReleaseXmaContext_loop.induct)
  case (1 ops ptr n s)
  show ?case
  proof (cases "n < kXmaContextCount")
    case False
    then show ?thesis
      by (subst ReleaseXmaContext_loop.simps) (simp add: released_beyond)
  next
    case True
    show ?thesis
    proof (cases "guest_ptr (xma_context_array s n) = ptr")
      case hit: True
      let ?s' = "s\<lparr>xma_context_array := (xma_context_array s)
             (n := (xma_context_array s n)\<lparr>in_use := False,
                    decoder := DiscardPacket ops (decoder (xma_context_array s n))\<rparr>),
          memory := memset (memory s) (TranslateVirtual ptr) 0 kXmaContextSize\<rparr>"
      have "ReleaseXmaContext_loop ops ptr n s = ReleaseXmaContext_loop ops ptr (n + 1) ?s'"
        by (subst ReleaseXmaContext_loop.simps) (simp add: True hit Let_def)
      also have "\<dots> = released ops ptr (n + 1) ?s'"
        using "1.IH" (1) True hit by simp
      also have "\<dots> = released ops ptr n s"
        by (simp add: released_hit [OF True hit])
      finally show ?thesis .
    next
      case miss: False
      have "ReleaseXmaContext_loop ops ptr n s = ReleaseXmaContext_loop ops ptr (n + 1) s"
        by (subst ReleaseXmaContext_loop.simps) (simp add: True miss Let_def)
      also have "\<dots> = released ops ptr (n + 1) s"
        using "1.IH" (2) True miss by simp
      also have "\<dots> = released ops ptr n s"
        by (simp add: released_skip [OF True miss])
      finally show ?thesis .
    qed
  qed
qed

lemma ReleaseXmaContext_released: "ReleaseXmaContext ops ptr s = released ops ptr 0 s"
  by (simp add: ReleaseXmaContext_def ReleaseXmaContext_loop_released)

lemma ReleaseXmaContext_no_match:
  assumes "\<forall>n<kXmaContextCount. guest_ptr (xma_context_array s n) \<noteq> ptr"
  shows "ReleaseXmaContext ops ptr s = s"
  unfolding ReleaseXmaContext_released released_def using assms
  by (intro AudioSystem.equality) (auto simp: fun_eq_iff)

lemma pool_state_ReleaseXmaContext:
  "pool_state (ReleaseXmaContext ops ptr s) = map (\<lambda>(g, u). (g, u \<and> g \<noteq> ptr)) (pool_state s)"
  by (simp add: pool_state_def ReleaseXmaContext_released released_def)

lemma pool_state_never_allocated:
  assumes "\<forall>n<kXmaContextCount. guest_ptr (xma_context_array s n) = ptr \<longrightarrow> \<not> in_use (xma_context_array s n)"
  shows "pool_state (ReleaseXmaContext ops ptr s) = pool_state s"
proof -
  have "map (\<lambda>(g, u). (g, u \<and> g \<noteq> ptr)) (pool_state s) = map (\<lambda>x. x) (pool_state s)"
    unfolding pool_state_def using assms by (intro map_cong) auto
  then show ?thesis by (simp add: pool_state_ReleaseXmaContext)
qed

lemma pool_state_release_idem:
  "pool_state (ReleaseXmaContext ops ptr (ReleaseXmaContext ops ptr s))
     = pool_state (ReleaseXmaContext ops ptr s)"
  by (simp add: pool_state_ReleaseXmaContext comp_def case_prod_beta)

lemma memory_release_idem:
  "memory (ReleaseXmaContext ops ptr (ReleaseXmaContext ops ptr s))
     = memory (ReleaseXmaContext ops ptr s)"
proof -
  have gp: "guest_ptr (xma_context_array (ReleaseXmaContext ops ptr s) k)
      = guest_ptr (xma_context_array s k)" for k
    by (simp add: ReleaseXmaContext_released released_def)
  have mem: "memory (ReleaseXmaContext ops ptr s') =
      (if \<exists>k<kXmaContextCount. guest_ptr (xma_context_array s' k) = ptr
       then memset (memory s') (TranslateVirtual ptr) 0 kXmaContextSize else memory s')" for s'
    by (auto simp add: ReleaseXmaContext_released released_def)
  show ?thesis
    by (simp only: mem [of "ReleaseXmaContext ops ptr s"] gp) (auto simp add: mem memset_idem)
qed

lemma unat_context_ptr:
  assumes "unat (p :: u32) + 64 * kXmaContextCount \<le> 2 ^ 32" "n < kXmaContextCount"
  shows "unat (p + of_nat n * 64) = unat p + n * 64"
proof -
  have n64: "n * 64 < 2 ^ 32"
    using assms(2) by (simp add: kXmaContextCount_def)
  have "unat (of_nat (n * 64) :: u32) = n * 64"
    using n64 by (simp only: unat_of_nat) simp
  moreover have "unat p + n * 64 < 2 ^ 32"
    using assms by (simp add: kXmaContextCount_def)
  ultimately have "unat (p + of_nat (n * 64)) = unat p + n * 64"
    by (simp only: unat_word_ariths) simp
  then show ?thesis by simp
qed

lemma started_system_unat_guest_ptr:
  assumes "n < kXmaContextCount"
  shows "unat (guest_ptr (xma_context_array (started_system d) n)) = 0x40000 + n * 64"
  using unat_context_ptr [of "0x40000" n] assms
  by (simp add: started_system_context kXmaContextCount_def)

lemma released_slot:
  assumes "n < kXmaContextCount" "guest_ptr (xma_context_array s n) = ptr"
  shows "xma_context_array (ReleaseXmaContext ops ptr s) n
           = (xma_context_array s n)\<lparr>in_use := False,
                decoder := DiscardPacket ops (decoder (xma_context_array s n))\<rparr>"
    and "memory (ReleaseXmaContext ops ptr s)
           = memset (memory s) (TranslateVirtual ptr) 0 kXmaContextSize"
  using assms unfolding ReleaseXmaContext_released released_def by auto

lemma released_other_slot:
  assumes "guest_ptr (xma_context_array s n) \<noteq> ptr"
  shows "xma_context_array (ReleaseXmaContext ops ptr s) n = xma_context_array s n"
  using assms unfolding ReleaseXmaContext_released released_def by auto

lemma untouched_system_context:
  "k < kXmaContextCount \<Longrightarrow>
   xma_context_array untouched_system k
     = \<lparr>guest_ptr = 0x40000 + of_nat k * 64, in_use = False, decoder = 5\<rparr>"
  by (simp add: untouched_system_def started_system_context)

lemma untouched_system_slot_1:
  "xma_context_array untouched_system 1 = \<lparr>guest_ptr = 0x40040, in_use = False, decoder = 5\<rparr>"
  "xma_context_array untouched_system (Suc 0)
     = \<lparr>guest_ptr = 0x40040, in_use = False, decoder = 5\<rparr>"
  using untouched_system_context [of 1] by (simp_all add: kXmaContextCount_def)

lemma untouched_system_memory: "memory untouched_system = (\<lambda>a. 0xAB)"
  by (simp add: untouched_system_def)

lemma untouched_system_no_match:
  "\<not> (\<exists>n<kXmaContextCount. guest_ptr (xma_context_array untouched_system n) = 5)"
proof
  assume "\<exists>n<kXmaContextCount. guest_ptr (xma_context_array untouched_system n) = 5"
  then obtain n where "n < kXmaContextCount"
    and "guest_ptr (xma_context_array untouched_system n) = 5" by blast
  then have "0x40000 + n * 64 = unat (5 :: u32)"
    using started_system_unat_guest_ptr [of n "5 :: nat"] by (simp add: untouched_system_def)
  then show False by simp
qed

lemma memset_at: "memset m p v n a = (if p \<le> a \<and> a < p + n then v else m a)"
  by (simp add: memset_def)

text \<open>Claim C6, as the code has it. \<open>ReleaseXmaContext\<close> returns nothing, so it has no
  error to signal. With a guest address that matches no slot it leaves the whole state as it
  is. Releasing a context that is not in use leaves the pool state (the guest address and
  the in-use flag of every slot) unchanged, and a second release of the same address changes
  neither the pool state nor guest memory. It is not a no-op, though: the loop does not test
  the in-use flag, so every slot with the given address, allocated or not, has its 64-byte
  record in guest memory zeroed and its decoder told to discard its packet. A slot with
  another address is left as it is.\<close>

theorem ReleaseXmaContext_effect:
  "((\<forall>n<kXmaContextCount. guest_ptr (xma_context_array s n) \<noteq> ptr)
      \<longrightarrow> ReleaseXmaContext ops ptr s = s)
   \<and> ((\<forall>n<kXmaContextCount. guest_ptr (xma_context_array s n) = ptr
          \<longrightarrow> \<not> in_use (xma_context_array s n))
      \<longrightarrow> pool_state (ReleaseXmaContext ops ptr s) = pool_state s)
   \<and> pool_state (ReleaseXmaContext ops ptr (ReleaseXmaContext ops ptr s))
       = pool_state (ReleaseXmaContext ops ptr s)
   \<and> memory (ReleaseXmaContext ops ptr (ReleaseXmaContext ops ptr s))
       = memory (ReleaseXmaContext ops ptr s)
   \<and> (n < kXmaContextCount \<and> guest_ptr (xma_context_array s n) = ptr
      \<longrightarrow> xma_context_array (ReleaseXmaContext ops ptr s) n
            = (xma_context_array s n)\<lparr>in_use := False,
                 decoder := DiscardPacket ops (decoder (xma_context_array s n))\<rparr>
        \<and> memory (ReleaseXmaContext ops ptr s)
            = memset (memory s) (TranslateVirtual ptr) 0 kXmaContextSize)
   \<and> (guest_ptr (xma_context_array s n) \<noteq> ptr
      \<longrightarrow> xma_context_array (ReleaseXmaContext ops ptr s) n = xma_context_array s n)"
  using ReleaseXmaContext_no_match [of s ptr ops] pool_state_never_allocated [of s ptr ops]
    pool_state_release_idem [of ops ptr s] memory_release_idem [of ops ptr s]
    released_slot [of n s ptr ops] released_other_slot [of s n ptr ops]
  by blast

text \<open>A release of slot 1 of a system in which no context was ever allocated: the pool
  state stays, but the byte at the guest address goes from \<open>0xAB\<close> to zero and the decoder
  of the slot loses its five pending blocks.\<close>

theorem release_unallocated_counterexample:
  "\<not> in_use (xma_context_array untouched_system 1)
   \<and> guest_ptr (xma_context_array untouched_system 1) = 0x40040
   \<and> decoder (xma_context_array untouched_system 1) = 5
   \<and> memory untouched_system 0x40040 = 0xAB
   \<and> decoder (xma_context_array
        (ReleaseXmaContext (fixed_ratio_decoder 8) 0x40040 untouched_system) 1) = 0
   \<and> memory (ReleaseXmaContext (fixed_ratio_decoder 8) 0x40040 untouched_system) 0x40040 = 0
   \<and> ReleaseXmaContext (fixed_ratio_decoder 8) 0x40040 untouched_system \<noteq> untouched_system"
proof -
  have one: "1 < kXmaContextCount" by (simp add: kXmaContextCount_def)
  have gp: "guest_ptr (xma_context_array untouched_system 1) = 0x40040"
    by (simp add: untouched_system_slot_1)
  have dec: "decoder (xma_context_array
        (ReleaseXmaContext (fixed_ratio_decoder 8) 0x40040 untouched_system) 1) = 0"
    unfolding released_slot(1) [OF one gp]
    by (simp add: untouched_system_slot_1 fixed_ratio_decoder_def)
  have mem: "memory (ReleaseXmaContext (fixed_ratio_decoder 8) 0x40040 untouched_system) 0x40040 = 0"
    unfolding released_slot(2) [OF one gp]
    by (simp add: memset_at TranslateVirtual_def kXmaContextSize_def)
  have "memory (ReleaseXmaContext (fixed_ratio_decoder 8) 0x40040 untouched_system) 0x40040
          \<noteq> memory untouched_system 0x40040"
    by (simp add: mem untouched_system_memory)
  then have "ReleaseXmaContext (fixed_ratio_decoder 8) 0x40040 untouched_system \<noteq> untouched_system"
    by auto
  with dec mem show ?thesis
    by (simp add: untouched_system_slot_1 untouched_system_memory)
qed

theorem ReleaseXmaContext_effect_witness:
  "\<not> (\<exists>n<kXmaContextCount. guest_ptr (xma_context_array untouched_system n) = 5)
   \<and> ReleaseXmaContext (fixed_ratio_decoder 8) 5 untouched_system = untouched_system
   \<and> \<not> (\<exists>n<kXmaContextCount. guest_ptr (xma_context_array untouched_system n) = 0x40040
          \<and> in_use (xma_context_array untouched_system n))
   \<and> pool_state (ReleaseXmaContext (fixed_ratio_decoder 8) 0x40040 untouched_system)
       = pool_state untouched_system
   \<and> 1 < kXmaContextCount
   \<and> guest_ptr (xma_context_array untouched_system 1) = 0x40040
   \<and> xma_context_array (ReleaseXmaContext (fixed_ratio_decoder 8) 0x40040 untouched_system) 1
       = \<lparr>guest_ptr = 0x40040, in_use = False, decoder = 0\<rparr>
   \<and> memory (ReleaseXmaContext (fixed_ratio_decoder 8) 0x40040 untouched_system)
       = memset (\<lambda>a. 0xAB) 0x40040 0 64
   \<and> guest_ptr (xma_context_array untouched_system 0) \<noteq> 0x40040
   \<and> xma_context_array (ReleaseXmaContext (fixed_ratio_decoder 8) 0x40040 untouched_system) 0
       = \<lparr>guest_ptr = 0x40000, in_use = False, decoder = 5\<rparr>"
proof -
  note th = ReleaseXmaContext_effect
  have one: "1 < kXmaContextCount" by (simp add: kXmaContextCount_def)
  have gp: "guest_ptr (xma_context_array untouched_system 1) = 0x40040"
    by (simp add: untouched_system_slot_1)
  have zero: "xma_context_array untouched_system 0
      = \<lparr>guest_ptr = 0x40000, in_use = False, decoder = 5\<rparr>"
    using untouched_system_context [of 0] by (simp add: kXmaContextCount_def)
  have gp0: "guest_ptr (xma_context_array untouched_system 0) \<noteq> 0x40040"
    by (simp add: zero)
  have no_match: "\<forall>n<kXmaContextCount. guest_ptr (xma_context_array untouched_system n) \<noteq> 5"
    using untouched_system_no_match by blast
  have free: "\<forall>n<kXmaContextCount. guest_ptr (xma_context_array untouched_system n) = 0x40040
          \<longrightarrow> \<not> in_use (xma_context_array untouched_system n)"
    by (simp add: untouched_system_context)
  from th [of untouched_system 5 "fixed_ratio_decoder 8" 0] no_match
  have a: "ReleaseXmaContext (fixed_ratio_decoder 8) 5 untouched_system = untouched_system"
    by blast
  from th [of untouched_system "0x40040" "fixed_ratio_decoder 8" 1] free one gp
  have b: "pool_state (ReleaseXmaContext (fixed_ratio_decoder 8) 0x40040 untouched_system)
       = pool_state untouched_system"
    and c: "xma_context_array (ReleaseXmaContext (fixed_ratio_decoder 8) 0x40040 untouched_system) 1
            = (xma_context_array untouched_system 1)\<lparr>in_use := False,
                 decoder := DiscardPacket (fixed_ratio_decoder 8)
                   (decoder (xma_context_array untouched_system 1))\<rparr>"
    and d: "memory (ReleaseXmaContext (fixed_ratio_decoder 8) 0x40040 untouched_system)
            = memset (memory untouched_system) (TranslateVirtual 0x40040) 0 kXmaContextSize"
    by blast+
  from th [of untouched_system "0x40040" "fixed_ratio_decoder 8" 0] gp0
  have e: "xma_context_array (ReleaseXmaContext (fixed_ratio_decoder 8) 0x40040 untouched_system) 0
      = xma_context_array untouched_system 0"
    by blast
  have c': "xma_context_array (ReleaseXmaContext (fixed_ratio_decoder 8) 0x40040 untouched_system) 1
       = \<lparr>guest_ptr = 0x40040, in_use = False, decoder = 0\<rparr>"
    unfolding c by (simp add: untouched_system_slot_1 fixed_ratio_decoder_def)
  have d': "memory (ReleaseXmaContext (fixed_ratio_decoder 8) 0x40040 untouched_system)
       = memset (\<lambda>a. 0xAB) 0x40040 0 64"
    unfolding d by (simp add: untouched_system_memory TranslateVirtual_def kXmaContextSize_def)
  from free have free': "\<not> (\<exists>n<kXmaContextCount.
      guest_ptr (xma_context_array untouched_system n) = 0x40040
          \<and> in_use (xma_context_array untouched_system n))"
    by blast
  show ?thesis
    using untouched_system_no_match a free' b one gp c' d' gp0 e [unfolded zero]
    by (intro conjI)
qed

lemma RegisterClient_exhausted:
  "unused_clients s = [] \<Longrightarrow> RegisterClient CreateDriver heap_ptr s cb arg = Inl AssertionFailed"
  by (simp add: RegisterClient_def)

lemma RegisterClient_driver_failed:
  assumes "unused_clients s \<noteq> []" "XFAILED (fst (CreateDriver (hd (unused_clients s))))"
  shows "RegisterClient CreateDriver heap_ptr s cb arg =
     Inr (fst (CreateDriver (hd (unused_clients s))), None,
          s\<lparr>client_wait_handles := (client_wait_handles s)(hd (unused_clients s) := False)\<rparr>)"
  using assms by (cases "CreateDriver (hd (unused_clients s))") (simp add: RegisterClient_def Let_def)

lemma AllocateXmaContext_exhausted:
  assumes "\<forall>n<kXmaContextCount. in_use (xma_context_array s n)"
  shows "AllocateXmaContext s = (0, s)"
proof -
  have "find (\<lambda>k. \<not> in_use (xma_context_array s k)) [0..<kXmaContextCount] = None"
    using assms by (simp add: find_None_iff)
  then show ?thesis by (rule AllocateXmaContext_None)
qed

text \<open>Claim C9, as the code has it. \<open>AllocateXmaContext\<close> reports an exhausted pool by
  returning zero, leaving the state as it is. \<open>RegisterClient\<close> has no status for an empty
  free queue: it asserts that the queue is not empty. The one failure it reports as a status
  is that of \<open>CreateDriver\<close>, and then no client slot is taken. Both are functions that
  return; neither keeps the request.\<close>

theorem exhaustion_reporting:
  "((\<forall>n<kXmaContextCount. in_use (xma_context_array s n)) \<longrightarrow> AllocateXmaContext s = (0, s))
   \<and> (unused_clients s = [] \<longrightarrow>
        RegisterClient CreateDriver heap_ptr s cb arg = Inl AssertionFailed)
   \<and> (unused_clients s \<noteq> [] \<and> XFAILED (fst (CreateDriver (hd (unused_clients s)))) \<longrightarrow>
        RegisterClient CreateDriver heap_ptr s cb arg =
          Inr (fst (CreateDriver (hd (unused_clients s))), None,
               s\<lparr>client_wait_handles := (client_wait_handles s)(hd (unused_clients s) := False)\<rparr>))"
  using AllocateXmaContext_exhausted [of s]
    RegisterClient_exhausted [of s CreateDriver heap_ptr cb arg]
    RegisterClient_driver_failed [of s CreateDriver heap_ptr cb arg]
  by blast

theorem RegisterClient_exhausted_counterexample:
  "RegisterClient working_driver 0x50000 (exhausted_system ()) 0x82000000 0x1234
     = Inl AssertionFailed"
  by (simp add: RegisterClient_def exhausted_system_def)

theorem exhaustion_reporting_witness:
  "\<not> (\<exists>n<kXmaContextCount. \<not> in_use (xma_context_array (full_pool_system ()) n))
   \<and> AllocateXmaContext (full_pool_system ()) = (0, full_pool_system ())
   \<and> unused_clients (exhausted_system ()) = []
   \<and> RegisterClient broken_driver 0x50000 (exhausted_system ()) 0x82000000 0x1234
       = Inl AssertionFailed
   \<and> unused_clients (started_system ()) \<noteq> []
   \<and> XFAILED (fst (broken_driver (hd (unused_clients (started_system ())))))
   \<and> RegisterClient broken_driver 0x50000 (started_system ()) 0x82000000 0x1234
       = Inr (0xC0000001, None,
              (started_system ())\<lparr>client_wait_handles :=
                 (client_wait_handles (started_system ()))
                   (hd (unused_clients (started_system ())) := False)\<rparr>)"
proof -
  have a: "\<forall>n<kXmaContextCount. in_use (xma_context_array (full_pool_system ()) n)"
    by (simp add: full_pool_system_def)
  have b: "unused_clients (exhausted_system ()) = []"
    by (simp add: exhausted_system_def)
  have c: "unused_clients (started_system ()) \<noteq> []"
    by (simp add: started_system_def Setup_def AudioSystem_new_def)
  have d: "XFAILED (fst (broken_driver k))" for k
    by (simp add: broken_driver_def XFAILED_def XSUCCEEDED_def)
  have e: "fst (broken_driver k) = 0xC0000001" for k
    by (simp add: broken_driver_def)
  from a b c d e
    exhaustion_reporting [of "full_pool_system ()"]
    exhaustion_reporting [of "exhausted_system ()" broken_driver "0x50000" "0x82000000" "0x1234"]
    exhaustion_reporting [of "started_system ()" broken_driver "0x50000" "0x82000000" "0x1234"]
  show ?thesis by simp
qed

section \<open>Properties of the register interface\<close>

lemma kick_context_registers:
  "next_context (kick_context s c) = next_context s"
  "current_context (kick_context s c) = current_context s"
  "xma_context_array (kick_context s c) = xma_context_array s"
  "register_file (kick_context s c) = register_file s"
  by (simp_all add: kick_context_def Let_def)

lemma kick_loop_registers:
  "next_context (kick_loop i v r s) = next_context s
   \<and> current_context (kick_loop i v r s) = current_context s
   \<and> xma_context_array (kick_loop i v r s) = xma_context_array s
   \<and> register_file (kick_loop i v r s) = register_file s"
proof (induction i v r s rule: kick_loop.induct)
  case (1 i v r s)
  show ?case
  proof (cases "v \<noteq> 0 \<and> i < 32")
    case False
    then show ?thesis by (subst (1 2 3 4) kick_loop.simps) auto
  next
    case True
    then show ?thesis
      using "1.IH" by (subst (1 2 3 4) kick_loop.simps) (simp add: kick_context_registers)
  qed
qed

lemma WriteRegister_aligned:
  assumes "(addr AND 0xFFFF) mod 4 = 0"
  shows "\<exists>s'. WriteRegister s addr v = Inr s' \<and> next_context s' = next_context s"
  using assms by (simp add: WriteRegister_def Let_def kick_loop_registers)

lemma ReadRegister_status:
  assumes "addr AND 0xFFFF = 0x1818"
  shows "ReadRegister s addr =
     Inr (ucast (byte_swap (next_context s)),
          s\<lparr>current_context := next_context s,
            next_context := (next_context s + 1) mod of_nat kXmaContextCount\<rparr>)"
  using assms by (simp add: ReadRegister_def Let_def)

lemma unat_next_context_step:
  assumes "unat (w :: u32) < kXmaContextCount"
  shows "unat ((w + 1) mod of_nat kXmaContextCount) = (unat w + 1) mod kXmaContextCount"
proof -
  have "unat (w + 1) = unat w + 1"
    using assms by (simp add: unat_word_ariths kXmaContextCount_def)
  moreover have "unat (of_nat kXmaContextCount :: u32) = kXmaContextCount"
    by (simp add: kXmaContextCount_def)
  ultimately show ?thesis by (simp add: unat_mod)
qed

lemma rotation_Suc:
  assumes "start < kXmaContextCount"
  shows "rotation start (Suc n) =
     ucast (byte_swap (of_nat start)) # rotation ((start + 1) mod kXmaContextCount) n"
proof -
  have "[0..<Suc n] = 0 # map Suc [0..<n]"
    by (simp add: upt_conv_Cons map_Suc_upt del: upt_Suc)
  moreover have "((start + 1) mod kXmaContextCount + k) mod kXmaContextCount
      = (start + Suc k) mod kXmaContextCount" for k
    by (simp add: mod_add_left_eq)
  ultimately show ?thesis
    using assms by (simp add: rotation_def comp_def del: upt_Suc)
qed

lemma run_status_reads:
  assumes "unat (next_context s) < kXmaContextCount"
    and "\<forall>a \<in> set accesses. status_read_or_write a"
  shows "\<exists>s'. run s accesses
            = Inr (rotation (unat (next_context s)) (length (filter is_read accesses)), s')
          \<and> unat (next_context s') < kXmaContextCount"
  using assms
proof (induction accesses arbitrary: s)
  case Nil
  then show ?case by (simp add: rotation_def)
next
  case (Cons a accesses)
  show ?case
  proof (cases a)
    case (RegRead addr)
    let ?s1 = "s\<lparr>current_context := next_context s,
            next_context := (next_context s + 1) mod of_nat kXmaContextCount\<rparr>"
    from Cons.prems RegRead have addr: "addr AND 0xFFFF = 0x1818" by simp
    have next1: "unat (next_context ?s1) = (unat (next_context s) + 1) mod kXmaContextCount"
      using Cons.prems(1) by (simp add: unat_next_context_step)
    then have inv1: "unat (next_context ?s1) < kXmaContextCount"
      by (simp add: kXmaContextCount_def)
    from Cons.IH [OF inv1] Cons.prems(2) obtain s' where
      run1: "run ?s1 accesses
          = Inr (rotation (unat (next_context ?s1)) (length (filter is_read accesses)), s')"
      and inv': "unat (next_context s') < kXmaContextCount"
      by auto
    have "run s (a # accesses)
        = Inr (ucast (byte_swap (next_context s))
                 # rotation (unat (next_context ?s1)) (length (filter is_read accesses)), s')"
      using run1 by (simp add: RegRead ReadRegister_status [OF addr])
    moreover have "of_nat (unat (next_context s)) = next_context s"
      by simp
    ultimately have "run s (a # accesses)
        = Inr (rotation (unat (next_context s)) (length (filter is_read (a # accesses))), s')"
      using rotation_Suc [OF Cons.prems(1)] next1 RegRead by simp
    with inv' show ?thesis by blast
  next
    case (RegWrite addr v)
    from Cons.prems RegWrite have "(addr AND 0xFFFF) mod 4 = 0" by simp
    from WriteRegister_aligned [OF this, of s v] obtain s1 where
      w: "WriteRegister s addr v = Inr s1" and same: "next_context s1 = next_context s"
      by blast
    from Cons.IH [of s1] Cons.prems same obtain s' where
      "run s1 accesses
          = Inr (rotation (unat (next_context s)) (length (filter is_read accesses)), s')"
      and "unat (next_context s') < kXmaContextCount"
      by auto
    then show ?thesis using w RegWrite by auto
  qed
qed

lemma Setup_next_context: "next_context (Setup p d s) = 1"
  by (simp add: Setup_def)

text \<open>Claim C4. From a state whose counter \<open>next_context\<close> is a context index (\<open>Setup\<close> sets
  it to 1 and every read keeps it below 320), any sequence of reads of the status register
  and of writes to aligned registers succeeds, and its reads return, in order, the
  byte-swapped values \<open>(start + k) mod 320\<close> for \<open>k = 0, 1, ...\<close>, where \<open>start\<close> is the counter at
  the beginning. The writes, to the status register or to any other, do not change the
  values read.\<close>

theorem status_register_rotates:
  assumes "unat (next_context s) < kXmaContextCount"
    and "\<forall>a \<in> set accesses. status_read_or_write a"
  shows "\<exists>s'. run s accesses
            = Inr (rotation (unat (next_context s)) (length (filter is_read accesses)), s')
          \<and> unat (next_context s') < kXmaContextCount"
  using assms by (rule run_status_reads)

theorem status_register_rotates_witness:
  "unat (next_context (started_system ())) < kXmaContextCount
   \<and> list_all status_read_or_write
        [RegRead 0x7FEA1818, RegWrite 0x7FEA1804 0x02000000, RegRead 0x7FEA1818,
         RegWrite 0x7FEA1818 0x05000000, RegRead 0x7FEA1818]
   \<and> (\<exists>s'. run (started_system ())
          [RegRead 0x7FEA1818, RegWrite 0x7FEA1804 0x02000000, RegRead 0x7FEA1818,
           RegWrite 0x7FEA1818 0x05000000, RegRead 0x7FEA1818]
        = Inr ([0x01000000, 0x02000000, 0x03000000], s'))"
proof -
  let ?accesses = "[RegRead 0x7FEA1818, RegWrite 0x7FEA1804 0x02000000, RegRead 0x7FEA1818,
         RegWrite 0x7FEA1818 0x05000000, RegRead 0x7FEA1818]"
  have start: "next_context (started_system ()) = 1"
    by (simp add: started_system_def Setup_next_context)
  have inv: "unat (next_context (started_system ())) < kXmaContextCount"
    by (simp add: start kXmaContextCount_def)
  have ok: "\<forall>a \<in> set ?accesses. status_read_or_write a"
    by simp
  have vals: "rotation 1 3 = [0x01000000, 0x02000000, 0x03000000]"
    by (simp add: rotation_def kXmaContextCount_def byte_swap_def byte_of_def word_of_bytes_def
        upt_conv_Cons)
  have reads: "length (filter is_read ?accesses) = 3"
    by simp
  have one: "unat (next_context (started_system ())) = 1"
    by (simp add: start)
  from status_register_rotates [OF inv ok] obtain s' where
    "run (started_system ()) ?accesses
       = Inr (rotation (unat (next_context (started_system ())))
                (length (filter is_read ?accesses)), s')"
    by blast
  then have "run (started_system ()) ?accesses = Inr ([0x01000000, 0x02000000, 0x03000000], s')"
    by (simp only: reads one vals)
  then have "\<exists>s'. run (started_system ()) ?accesses
      = Inr ([0x01000000, 0x02000000, 0x03000000], s')" ..
  moreover have "list_all status_read_or_write ?accesses"
    using ok by (simp only: list_all_iff)
  ultimately show ?thesis using inv by (intro conjI)
qed

lemma kick_base:
  assumes "0x1940 \<le> (r :: u32)" "r \<le> 0x1940 + 9 * 4"
  shows "unat ((r - 0x1940) div 4 * 32) = (unat r - 0x1940) div 4 * 32"
    and "(unat r - 0x1940) div 4 * 32 + 32 \<le> kXmaContextCount"
proof -
  have lo: "0x1940 \<le> unat r" and hi: "unat r \<le> 0x1940 + 36"
    using assms by (simp_all add: word_le_nat_alt)
  have sub: "unat (r - 0x1940) = unat r - 0x1940"
    using assms(1) by (simp add: unat_sub)
  have dv: "unat ((r - 0x1940) div 4) = (unat r - 0x1940) div 4"
    by (simp add: unat_div sub)
  have "unat ((r - 0x1940) div 4) * unat (32 :: u32) < 2 ^ LENGTH(32)"
    using hi dv by simp
  then have "unat ((r - 0x1940) div 4 * 32) = unat ((r - 0x1940) div 4) * unat (32 :: u32)"
    by (rule unat_mult_lem [THEN iffD1])
  then show "unat ((r - 0x1940) div 4 * 32) = (unat r - 0x1940) div 4 * 32"
    by (simp add: dv)
  show "(unat r - 0x1940) div 4 * 32 + 32 \<le> kXmaContextCount"
    using hi by (simp add: kXmaContextCount_def)
qed

lemma length_context_record: "length (context_record s c) = 16"
  by (simp add: context_record_def length_XMA_CONTEXT_DATA_load)

lemma length_kick_data: "length (kick_data d) = length d"
  by (simp add: kick_data_def Let_def length_set_field)

lemma kick_context_record:
  assumes "records_disjoint s" "c < kXmaContextCount" "c' < kXmaContextCount"
  shows "context_record (kick_context s c) c' =
     (if c' = c then kick_data (context_record s c) else context_record s c')"
proof (cases "c' = c")
  case True
  then show ?thesis
    by (simp add: context_record_def context_ptr_def kick_context_def Let_def load_Store
        length_kick_data length_XMA_CONTEXT_DATA_load)
next
  case False
  with assms have "context_ptr s c' + 64 \<le> context_ptr s c \<or> context_ptr s c + 64 \<le> context_ptr s c'"
    by (auto simp: records_disjoint_def)
  with False show ?thesis
    by (simp add: context_record_def context_ptr_def kick_context_def Let_def load_Store_other)
qed

lemma kick_context_disjoint: "records_disjoint (kick_context s c) = records_disjoint s"
  by (simp add: records_disjoint_def context_ptr_def kick_context_def Let_def)

lemma kick_context_fence: "decoder_fence (kick_context s c) = decoder_fence s + 1"
  by (simp add: kick_context_def Let_def)

lemma pending_bits_done: "\<not> (v \<noteq> 0 \<and> i < 32) \<Longrightarrow> pending_bits i v = {}"
  by (auto simp: pending_bits_def)

lemma pending_bits_step:
  assumes "i < 32"
  shows "pending_bits i v = (if v AND 1 \<noteq> 0 then {i} else {}) \<union> pending_bits (i + 1) (drop_bit 1 v)"
proof -
  have odd: "v AND 1 \<noteq> 0 \<longleftrightarrow> bit v 0"
    by (simp add: and_one_eq bit_0 mod_2_eq_odd)
  have "bit (drop_bit 1 v) (b - (i + 1)) = bit v (b - i)" if "i < b" for b
    using that by (simp add: bit_drop_bit_eq Suc_diff_Suc)
  then have next_bits: "pending_bits (i + 1) (drop_bit 1 v) = {b. i < b \<and> b < 32 \<and> bit v (b - i)}"
    by (auto simp: pending_bits_def)
  show ?thesis
  proof (rule set_eqI)
    fix b
    show "b \<in> pending_bits i v \<longleftrightarrow>
        b \<in> (if v AND 1 \<noteq> 0 then {i} else {}) \<union> pending_bits (i + 1) (drop_bit 1 v)"
      unfolding Un_iff next_bits
      using assms odd by (cases "b = i") (auto simp: pending_bits_def)
  qed
qed

lemma finite_pending_bits: "finite (pending_bits i v)"
  by (simp add: pending_bits_def)

lemma pending_bits_above: "b \<in> pending_bits (i + 1) v \<Longrightarrow> i < b"
  by (simp add: pending_bits_def)

lemma kick_loop_effect:
  assumes "records_disjoint s" "unat ((r - 0x1940) div 4 * 32) + 32 \<le> kXmaContextCount"
  shows "(\<forall>c<kXmaContextCount. context_record (kick_loop i v r s) c =
            (if \<exists>b \<in> pending_bits i v. c = b + unat ((r - 0x1940) div 4 * 32)
             then kick_data (context_record s c)
             else context_record s c))
         \<and> decoder_fence (kick_loop i v r s) = decoder_fence s + card (pending_bits i v)"
  using assms
proof (induction i v r s rule: kick_loop.induct)
  case (1 i v r s)
  let ?base = "unat ((r - 0x1940) div 4 * 32)"
  show ?case
  proof (cases "v \<noteq> 0 \<and> i < 32")
    case False
    then have "kick_loop i v r s = s"
      by (subst kick_loop.simps) auto
    with False show ?thesis by (simp add: pending_bits_done)
  next
    case True
    then have i: "i < 32" by simp
    let ?s1 = "if v AND 1 \<noteq> 0 then kick_context s (i + ?base) else s"
    have step: "kick_loop i v r s = kick_loop (i + 1) (drop_bit 1 v) r ?s1"
      using True by (subst kick_loop.simps) simp
    have dis1: "records_disjoint ?s1"
      using "1.prems"(1) by (simp add: kick_context_disjoint)
    have ib: "i + ?base < kXmaContextCount"
      using i "1.prems"(2) by simp
    have rec1: "context_record ?s1 c =
        (if v AND 1 \<noteq> 0 \<and> c = i + ?base then kick_data (context_record s c)
         else context_record s c)" if "c < kXmaContextCount" for c
      using "1.prems"(1) ib that by (simp add: kick_context_record)
    have fence1: "decoder_fence ?s1 = decoder_fence s + (if v AND 1 \<noteq> 0 then 1 else 0)"
      by (simp add: kick_context_fence)
    have IH: "(\<forall>c<kXmaContextCount. context_record (kick_loop (i + 1) (drop_bit 1 v) r ?s1) c =
            (if \<exists>b \<in> pending_bits (i + 1) (drop_bit 1 v). c = b + ?base
             then kick_data (context_record ?s1 c) else context_record ?s1 c))
         \<and> decoder_fence (kick_loop (i + 1) (drop_bit 1 v) r ?s1)
             = decoder_fence ?s1 + card (pending_bits (i + 1) (drop_bit 1 v))"
      by (rule "1.IH" [OF True dis1 "1.prems"(2)])
    have notin: "i \<notin> pending_bits (i + 1) (drop_bit 1 v)"
      using pending_bits_above [of i i "drop_bit 1 v"] by blast
    have card: "card (pending_bits i v)
        = (if v AND 1 \<noteq> 0 then 1 else 0) + card (pending_bits (i + 1) (drop_bit 1 v))"
      using notin by (simp add: pending_bits_step [OF i] finite_pending_bits)
    have records: "context_record (kick_loop i v r s) c =
            (if \<exists>b \<in> pending_bits i v. c = b + ?base then kick_data (context_record s c)
             else context_record s c)" if c: "c < kXmaContextCount" for c
    proof -
      have "context_record (kick_loop i v r s) c =
            (if \<exists>b \<in> pending_bits (i + 1) (drop_bit 1 v). c = b + ?base
             then kick_data (context_record ?s1 c) else context_record ?s1 c)"
        using IH c by (simp only: step)
      also have "\<dots> = (if \<exists>b \<in> pending_bits i v. c = b + ?base
             then kick_data (context_record s c) else context_record s c)"
      proof (cases "\<exists>b \<in> pending_bits (i + 1) (drop_bit 1 v). c = b + ?base")
        case True
        then have "c \<noteq> i + ?base" using notin by auto
        with True show ?thesis
          by (auto simp add: rec1 [OF c] pending_bits_step [OF i])
      next
        case False
        then show ?thesis
          by (auto simp add: rec1 [OF c] pending_bits_step [OF i])
      qed
      finally show ?thesis .
    qed
    have "decoder_fence (kick_loop i v r s) = decoder_fence s + card (pending_bits i v)"
      using IH by (simp only: step fence1 card)
    with records show ?thesis by blast
  qed
qed

lemma kick_data_fields:
  assumes "length d = 16"
  shows "get_field (kick_data d) input_buffer_0_valid
           = (if get_field d input_buffer_0_ptr \<noteq> 0 then 1 else 0)"
    and "get_field (kick_data d) input_buffer_1_valid
           = (if get_field d input_buffer_1_ptr \<noteq> 0 then 1 else 0)"
    and "get_field (kick_data d) output_buffer_write_offset = 0"
    and "f \<notin> kick_written_fields \<Longrightarrow> get_field (kick_data d) f = get_field d f"
proof -
  let ?v0 = "if get_field d input_buffer_0_ptr \<noteq> 0 then 1 else 0 :: u32"
  let ?d1 = "set_field d input_buffer_0_valid ?v0"
  let ?v1 = "if get_field ?d1 input_buffer_1_ptr \<noteq> 0 then 1 else 0 :: u32"
  let ?d2 = "set_field ?d1 input_buffer_1_valid ?v1"
  have kd: "kick_data d = set_field ?d2 output_buffer_write_offset 0"
    by (simp add: kick_data_def Let_def)
  have len: "length ?d1 = 16" "length ?d2 = 16"
    using assms by (simp_all add: length_set_field)
  have p1: "get_field ?d1 input_buffer_1_ptr = get_field d input_buffer_1_ptr"
    by (rule get_set_field_other) simp
  have bit1: "take_bit (Suc 0) (if c then 1 else 0 :: u32) = (if c then 1 else 0)" for c
    by simp
  show "get_field (kick_data d) input_buffer_0_valid = ?v0"
    unfolding kd
    by (subst get_set_field_other, simp, subst get_set_field_other, simp,
        subst get_set_field_same [OF assms], simp)
  show "get_field (kick_data d) input_buffer_1_valid
           = (if get_field d input_buffer_1_ptr \<noteq> 0 then 1 else 0)"
    unfolding kd
    by (subst get_set_field_other, simp, subst get_set_field_same [OF len(1)], simp add: p1)
  show "get_field (kick_data d) output_buffer_write_offset = 0"
    unfolding kd by (subst get_set_field_same [OF len(2)]) simp
  show "get_field (kick_data d) f = get_field d f" if "f \<notin> kick_written_fields"
  proof -
    have a: "get_field (set_field x output_buffer_write_offset v) f = get_field x f" for x v
      using that by (intro get_set_field_other) (cases f; simp add: kick_written_fields_def)
    have b: "get_field (set_field x input_buffer_1_valid v) f = get_field x f" for x v
      using that by (intro get_set_field_other) (cases f; simp add: kick_written_fields_def)
    have c: "get_field (set_field x input_buffer_0_valid v) f = get_field x f" for x v
      using that by (intro get_set_field_other) (cases f; simp add: kick_written_fields_def)
    show ?thesis unfolding kd by (simp only: a b c)
  qed
qed

lemma bit_ucast_u64: "b < 32 \<Longrightarrow> bit (ucast (w :: u32) :: u64) b = bit w b"
  by (simp add: bit_ucast_iff)

lemma pending_bits_ucast: "pending_bits 0 (ucast (w :: u32)) = {b. b < 32 \<and> bit w b}"
  by (auto simp: pending_bits_def bit_ucast_iff)

lemma kicked_pending:
  assumes "0x1940 \<le> (r :: u32)" "r \<le> 0x1940 + 9 * 4"
  shows "kicked r w c \<longleftrightarrow>
     (\<exists>b \<in> pending_bits 0 (ucast w). c = b + unat ((r - 0x1940) div 4 * 32))"
  unfolding kick_base(1) [OF assms] pending_bits_ucast kicked_def by auto

lemma kicked_in_pool:
  assumes "0x1940 \<le> (r :: u32)" "r \<le> 0x1940 + 9 * 4" "kicked r w c"
  shows "c < kXmaContextCount"
  using kick_base(2) [OF assms(1,2)] assms(3) by (auto simp: kicked_def)

lemma WriteRegister_kick:
  assumes "addr AND 0xFFFF = r" "0x1940 \<le> r" "r \<le> 0x1940 + 9 * 4" "r mod 4 = 0"
  shows "WriteRegister s addr v =
     Inr (kick_loop 0 (ucast (byte_swap (ucast v))) r
            (s\<lparr>register_file := (register_file s)
                  (unat r div 4 := ucast (ucast (byte_swap (ucast v)) :: u64))\<rparr>))"
  using assms by (simp add: WriteRegister_def Let_def)

lemma register_file_update_records:
  "context_record (s\<lparr>register_file := rf\<rparr>) c = context_record s c"
  "records_disjoint (s\<lparr>register_file := rf\<rparr>) = records_disjoint s"
  by (simp_all add: context_record_def context_ptr_def records_disjoint_def)

lemma WriteRegister_kick_effect:
  assumes r: "addr AND 0xFFFF = r" "0x1940 \<le> r" "r \<le> 0x1940 + 9 * 4" "r mod 4 = 0"
    and dis: "records_disjoint s"
  shows "\<exists>s'. WriteRegister s addr v = Inr s'
     \<and> (\<forall>c<kXmaContextCount. context_record s' c =
           (if kicked r (byte_swap (ucast v)) c then kick_data (context_record s c)
            else context_record s c))
     \<and> decoder_fence s' = decoder_fence s + card {b. b < 32 \<and> bit (byte_swap (ucast v)) b}
     \<and> xma_context_array s' = xma_context_array s"
proof -
  let ?w = "byte_swap (ucast v)"
  let ?s1 = "s\<lparr>register_file := (register_file s)
                  (unat r div 4 := ucast (ucast ?w :: u64))\<rparr>"
  let ?s' = "kick_loop 0 (ucast ?w) r ?s1"
  have w: "WriteRegister s addr v = Inr ?s'"
    by (rule WriteRegister_kick [OF r])
  have dis1: "records_disjoint ?s1"
    using dis by (simp only: register_file_update_records)
  have base: "unat ((r - 0x1940) div 4 * 32) + 32 \<le> kXmaContextCount"
    using kick_base [OF r(2,3)] by simp
  note eff = kick_loop_effect [OF dis1 base, of 0 "ucast ?w"]
  have "context_record ?s' c =
           (if kicked r ?w c then kick_data (context_record s c) else context_record s c)"
    if "c < kXmaContextCount" for c
    using eff that
    by (simp only: kicked_pending [OF r(2,3)] register_file_update_records)
  moreover have "decoder_fence ?s' = decoder_fence s + card {b. b < 32 \<and> bit ?w b}"
    using eff by (simp add: pending_bits_ucast)
  moreover have "xma_context_array ?s' = xma_context_array s"
    by (simp add: kick_loop_registers)
  ultimately show ?thesis using w by blast
qed

lemma Setup_records_disjoint:
  assumes "unat p + 64 * kXmaContextCount \<le> 2 ^ 32"
  shows "records_disjoint (Setup p d s)"
proof -
  have "context_ptr (Setup p d s) i = unat p + i * 64" if "i < kXmaContextCount" for i
    using that assms
    by (simp add: context_ptr_def TranslateVirtual_def Setup_context unat_context_ptr)
  then show ?thesis
    unfolding records_disjoint_def by auto
qed

lemma started_system_disjoint: "records_disjoint (started_system d)"
  unfolding started_system_def
  by (rule Setup_records_disjoint) (simp add: kXmaContextCount_def)

lemma started_system_memory: "memory (started_system d) = (\<lambda>a. 0)"
  by (simp add: started_system_def Setup_def AudioSystem_new_def)

lemma load_u32_zero: "load_u32 (\<lambda>a. 0) p = 0"
  by (simp add: load_u32_def word_of_bytes_def)

lemma byte_swap_zero: "byte_swap 0 = 0"
  by (simp add: byte_swap_def byte_of_def word_of_bytes_def)

lemma zero_memory_record: "XMA_CONTEXT_DATA_load (\<lambda>a. 0) p = replicate 16 0"
  by (simp add: XMA_CONTEXT_DATA_load_def copy_and_swap_def load_words_def load_u32_zero
      byte_swap_zero sizeof_XMA_CONTEXT_DATA_def map_replicate_const)

lemma get_field_zero_record: "get_field (replicate 16 0) f = 0"
  using field_dword_lt [of f] by (simp add: get_field_def)

text \<open>Claim C1, as the code has it. A write to a kick register (offset \<open>r\<close> from \<open>0x1940\<close> to
  \<open>0x1940 + 9 * 4\<close>, aligned) succeeds. With \<open>w\<close> the 32-bit value written, after the byte
  swap at the boundary, every set bit \<open>b\<close> of \<open>w\<close> names the context
  \<open>b + (r - 0x1940) div 4 * 32\<close>, which is a slot of the pool. In the record of each named
  context each input valid flag becomes 1 when the pointer of its input buffer is not zero
  and 0 when it is zero, the output write offset becomes 0 and no other field changes; the
  record of every other context is as before; the decoder fence is signalled once for every
  set bit. The records of the slots are taken to be disjoint, as \<open>Setup\<close> lays them out.\<close>

theorem kick_register_write:
  assumes "addr AND 0xFFFF = r" "0x1940 \<le> r" "r \<le> 0x1940 + 9 * 4" "r mod 4 = 0"
    and "records_disjoint s"
  shows "\<exists>s'. WriteRegister s addr v = Inr s'
     \<and> (\<forall>c. kicked r (byte_swap (ucast v)) c \<longrightarrow>
           c < kXmaContextCount
           \<and> get_field (context_record s' c) input_buffer_0_valid
               = (if get_field (context_record s c) input_buffer_0_ptr \<noteq> 0 then 1 else 0)
           \<and> get_field (context_record s' c) input_buffer_1_valid
               = (if get_field (context_record s c) input_buffer_1_ptr \<noteq> 0 then 1 else 0)
           \<and> get_field (context_record s' c) output_buffer_write_offset = 0
           \<and> (\<forall>f. f \<notin> kick_written_fields \<longrightarrow>
                 get_field (context_record s' c) f = get_field (context_record s c) f))
     \<and> (\<forall>c<kXmaContextCount. \<not> kicked r (byte_swap (ucast v)) c \<longrightarrow>
           context_record s' c = context_record s c)
     \<and> decoder_fence s' = decoder_fence s + card {b. b < 32 \<and> bit (byte_swap (ucast v)) b}
     \<and> xma_context_array s' = xma_context_array s"
proof -
  from WriteRegister_kick_effect [OF assms, of v] obtain s' where
    w: "WriteRegister s addr v = Inr s'"
    and rec: "\<And>c. c < kXmaContextCount \<Longrightarrow> context_record s' c =
           (if kicked r (byte_swap (ucast v)) c then kick_data (context_record s c)
            else context_record s c)"
    and fence: "decoder_fence s' = decoder_fence s
           + card {b. b < 32 \<and> bit (byte_swap (ucast v)) b}"
    and arr: "xma_context_array s' = xma_context_array s"
    by blast
  have "c < kXmaContextCount
           \<and> get_field (context_record s' c) input_buffer_0_valid
               = (if get_field (context_record s c) input_buffer_0_ptr \<noteq> 0 then 1 else 0)
           \<and> get_field (context_record s' c) input_buffer_1_valid
               = (if get_field (context_record s c) input_buffer_1_ptr \<noteq> 0 then 1 else 0)
           \<and> get_field (context_record s' c) output_buffer_write_offset = 0
           \<and> (\<forall>f. f \<notin> kick_written_fields \<longrightarrow>
                 get_field (context_record s' c) f = get_field (context_record s c) f)"
    if k: "kicked r (byte_swap (ucast v)) c" for c
  proof -
    have c: "c < kXmaContextCount"
      using assms(2,3) k by (rule kicked_in_pool)
    have "context_record s' c = kick_data (context_record s c)"
      using rec [OF c] k by simp
    then show ?thesis
      using c kick_data_fields [OF length_context_record [of s c]] by simp
  qed
  moreover have "context_record s' c = context_record s c"
    if "c < kXmaContextCount" "\<not> kicked r (byte_swap (ucast v)) c" for c
    using rec that by simp
  ultimately show ?thesis using w fence arr by blast
qed

theorem kick_register_write_witness:
  "(0x7FEA1944 :: u32) AND 0xFFFF = 0x1944 \<and> (0x1940 :: u32) \<le> 0x1944
   \<and> (0x1944 :: u32) \<le> 0x1940 + 9 * 4 \<and> (0x1944 :: u32) mod 4 = 0
   \<and> records_disjoint (started_system ())
   \<and> kicked 0x1944 (byte_swap (ucast (0x02000000 :: u64))) 33
   \<and> (\<exists>s'. WriteRegister (started_system ()) 0x7FEA1944 0x02000000 = Inr s'
         \<and> get_field (context_record s' 33) input_buffer_0_valid = 0
         \<and> get_field (context_record s' 33) output_buffer_write_offset = 0
         \<and> context_record s' 32 = context_record (started_system ()) 32)"
proof -
  have a: "(0x7FEA1944 :: u32) AND 0xFFFF = 0x1944" by simp
  have b: "(0x1940 :: u32) \<le> 0x1944" by simp
  have c: "(0x1944 :: u32) \<le> 0x1940 + 9 * 4" by simp
  have d: "(0x1944 :: u32) mod 4 = 0" by simp
  have w: "byte_swap (ucast (0x02000000 :: u64)) = 2"
    by (simp add: byte_swap_def byte_of_def word_of_bytes_def)
  have k33: "kicked 0x1944 (byte_swap (ucast (0x02000000 :: u64))) 33"
    unfolding w kicked_def by (rule exI [of _ 1]) simp
  have k32: "\<not> kicked 0x1944 (byte_swap (ucast (0x02000000 :: u64))) 32"
    unfolding w kicked_def by simp
  have zero: "get_field (context_record (started_system ()) 33) input_buffer_0_ptr = 0"
    by (simp add: context_record_def started_system_memory zero_memory_record
        get_field_zero_record)
  from kick_register_write [OF a b c d started_system_disjoint [of "()"], where v = "0x02000000"]
  obtain s' where wr: "WriteRegister (started_system ()) 0x7FEA1944 0x02000000 = Inr s'"
    and K: "\<forall>c. kicked 0x1944 (byte_swap (ucast (0x02000000 :: u64))) c \<longrightarrow>
           c < kXmaContextCount
           \<and> get_field (context_record s' c) input_buffer_0_valid
               = (if get_field (context_record (started_system ()) c) input_buffer_0_ptr \<noteq> 0
                  then 1 else 0)
           \<and> get_field (context_record s' c) input_buffer_1_valid
               = (if get_field (context_record (started_system ()) c) input_buffer_1_ptr \<noteq> 0
                  then 1 else 0)
           \<and> get_field (context_record s' c) output_buffer_write_offset = 0
           \<and> (\<forall>f. f \<notin> kick_written_fields \<longrightarrow>
                 get_field (context_record s' c) f
                   = get_field (context_record (started_system ()) c) f)"
    and N: "\<forall>c<kXmaContextCount. \<not> kicked 0x1944 (byte_swap (ucast (0x02000000 :: u64))) c \<longrightarrow>
           context_record s' c = context_record (started_system ()) c"
    by blast
  from K k33 zero have "get_field (context_record s' 33) input_buffer_0_valid = 0"
    and "get_field (context_record s' 33) output_buffer_write_offset = 0"
    by simp_all
  moreover from N k32 have "context_record s' 32 = context_record (started_system ()) 32"
    by (simp add: kXmaContextCount_def)
  ultimately show ?thesis using wr a b c d k33 started_system_disjoint [of "()"] by blast
qed

theorem kick_zero_pointers_counterexample:
  "WriteRegister (started_system ()) 0x7FEA1940 0x01000000
     = Inr (kick_context
              ((started_system ())\<lparr>register_file :=
                  (register_file (started_system ()))(1616 := 1)\<rparr>) 0)
   \<and> get_field (context_record (kick_context
              ((started_system ())\<lparr>register_file :=
                  (register_file (started_system ()))(1616 := 1)\<rparr>) 0) 0)
         input_buffer_0_valid = 0
   \<and> get_field (context_record (kick_context
              ((started_system ())\<lparr>register_file :=
                  (register_file (started_system ()))(1616 := 1)\<rparr>) 0) 0)
         input_buffer_1_valid = 0"
proof -
  let ?s1 = "(started_system ())\<lparr>register_file := (register_file (started_system ()))(1616 := 1)\<rparr>"
  have w: "byte_swap 0x01000000 = 1"
    by (simp add: byte_swap_def byte_of_def word_of_bytes_def)
  have loop: "kick_loop 0 1 0x1940 ?s1 = kick_context ?s1 0"
    by (subst kick_loop.simps, simp, subst kick_loop.simps, simp)
  have wr: "WriteRegister (started_system ()) 0x7FEA1940 0x01000000 = Inr (kick_context ?s1 0)"
    by (subst WriteRegister_kick [of _ "0x1940"]) (simp_all add: w loop)
  have dis: "records_disjoint ?s1"
    by (simp only: register_file_update_records started_system_disjoint)
  have rec: "context_record (kick_context ?s1 0) 0 = kick_data (replicate 16 0)"
    by (simp add: kick_context_record [OF dis] kXmaContextCount_def
        register_file_update_records context_record_def [of "started_system ()"]
        started_system_memory zero_memory_record)
  have "get_field (kick_data (replicate 16 0)) input_buffer_0_valid = 0"
    "get_field (kick_data (replicate 16 0)) input_buffer_1_valid = 0"
    by (simp_all add: kick_data_fields get_field_zero_record)
  with wr rec show ?thesis by simp
qed

section \<open>Properties of NtWriteFile\<close>

lemma INVALID_HANDLE_fails: "\<not> XSUCCEEDED X_STATUS_INVALID_HANDLE"
  by (simp add: XSUCCEEDED_def X_STATUS_INVALID_HANDLE_def)

lemma NtWriteFile_finish_frame:
  "fst (NtWriteFile_finish s event_handle io ev_valid False result info) = result"
  "file_writes (snd (NtWriteFile_finish s event_handle io ev_valid False result info))
     = file_writes s"
  "object_table (snd (NtWriteFile_finish s event_handle io ev_valid False result info))
     = object_table s"
  by (simp_all add: NtWriteFile_finish_def Let_def)

lemma NtWriteFile_null_event_result:
  "NtWriteFile_shim Write s file_handle 0 0 apc_context io_status_block_ptr buffer
       buffer_length byte_offset_ptr
     = Inr (NtWriteFile_finish s 0 io_status_block_ptr False False X_STATUS_INVALID_HANDLE 0)"
  by (simp add: NtWriteFile_shim_def Let_def INVALID_HANDLE_fails)

lemma NtWriteFile_finish_writes:
  "file_writes (snd (NtWriteFile_finish s event_handle io ev_valid signal result info))
     = file_writes s"
  by (simp add: NtWriteFile_finish_def Let_def)

lemma NtWriteFile_write_needs_event:
  assumes "NtWriteFile_shim Write s file_handle event_handle apc_routine_ptr apc_context
             io_status_block_ptr buffer buffer_length byte_offset_ptr = Inr (status, s')"
    and "file_writes s' \<noteq> file_writes s"
  shows "event_handle \<noteq> 0 \<and> LookupObject_XEvent s event_handle \<noteq> None"
proof (rule ccontr)
  assume "\<not> (event_handle \<noteq> 0 \<and> LookupObject_XEvent s event_handle \<noteq> None)"
  then have ev: "(if event_handle \<noteq> 0 then LookupObject_XEvent s event_handle else None) = None"
    by auto
  have "apc_routine_ptr = 0"
    using assms(1) by (auto simp: NtWriteFile_shim_def Let_def split: if_splits)
  then have "NtWriteFile_shim Write s file_handle event_handle apc_routine_ptr apc_context
             io_status_block_ptr buffer buffer_length byte_offset_ptr
      = Inr (NtWriteFile_finish s event_handle io_status_block_ptr False False
               X_STATUS_INVALID_HANDLE 0)"
    using ev by (simp add: NtWriteFile_shim_def Let_def INVALID_HANDLE_fails)
  with assms(1) have "s' = snd (NtWriteFile_finish s event_handle io_status_block_ptr False False
               X_STATUS_INVALID_HANDLE 0)"
    by simp
  with assms(2) show False
    by (simp add: NtWriteFile_finish_writes)
qed

text \<open>Claim C10. A call of \<open>NtWriteFile\<close> with a zero event handle (and, as the shim asserts,
  a zero APC routine) returns \<open>X_STATUS_INVALID_HANDLE\<close>, whatever the file handle is: the
  file is not written and the object table is unchanged (the status block, when there is
  one, receives the status). Whenever a call does write to a file, its event handle is not
  zero and names an event.\<close>

theorem NtWriteFile_null_event:
  "NtWriteFile_shim Write s file_handle 0 0 apc_context io_status_block_ptr buffer
       buffer_length byte_offset_ptr
     = Inr (NtWriteFile_finish s 0 io_status_block_ptr False False X_STATUS_INVALID_HANDLE 0)
   \<and> fst (NtWriteFile_finish s 0 io_status_block_ptr False False X_STATUS_INVALID_HANDLE 0)
       = X_STATUS_INVALID_HANDLE
   \<and> file_writes (snd (NtWriteFile_finish s 0 io_status_block_ptr False False
         X_STATUS_INVALID_HANDLE 0)) = file_writes s
   \<and> object_table (snd (NtWriteFile_finish s 0 io_status_block_ptr False False
         X_STATUS_INVALID_HANDLE 0)) = object_table s
   \<and> (NtWriteFile_shim Write s file_handle event_handle apc_routine_ptr apc_context
         io_status_block_ptr buffer buffer_length byte_offset_ptr = Inr (status, s')
       \<and> file_writes s' \<noteq> file_writes s
       \<longrightarrow> event_handle \<noteq> 0 \<and> LookupObject_XEvent s event_handle \<noteq> None)"
  using NtWriteFile_null_event_result [of Write s file_handle apc_context io_status_block_ptr
      buffer buffer_length byte_offset_ptr]
    NtWriteFile_finish_frame [of s 0 io_status_block_ptr False X_STATUS_INVALID_HANDLE 0]
    NtWriteFile_write_needs_event [of Write s file_handle event_handle apc_routine_ptr
      apc_context io_status_block_ptr buffer buffer_length byte_offset_ptr status s']
  by blast

lemma example_write:
  "NtWriteFile_shim accepting_file example_kernel 0x20 0x10 0 0 0 0x1000 16 0
     = Inr (X_STATUS_SUCCESS,
            example_kernel\<lparr>object_table := [0x10 \<mapsto> XEvent True, 0x20 \<mapsto> XFile ()],
              file_writes := [(0x20, 0x1000, 16, - 1)]\<rparr>)"
  by (simp add: NtWriteFile_shim_def NtWriteFile_finish_def Let_def example_kernel_def
      accepting_file_def LookupObject_XEvent_def LookupObject_XFile_def XSUCCEEDED_def
      X_STATUS_SUCCESS_def SHIM_MEM_ADDR_def fun_upd_twist)

theorem NtWriteFile_null_event_witness:
  "NtWriteFile_shim accepting_file example_kernel 0x20 0x10 0 0 0 0x1000 16 0
     = Inr (X_STATUS_SUCCESS,
            example_kernel\<lparr>object_table := [0x10 \<mapsto> XEvent True, 0x20 \<mapsto> XFile ()],
              file_writes := [(0x20, 0x1000, 16, - 1)]\<rparr>)
   \<and> file_writes (example_kernel\<lparr>object_table := [0x10 \<mapsto> XEvent True, 0x20 \<mapsto> XFile ()],
              file_writes := [(0x20, 0x1000, 16, - 1)]\<rparr>) \<noteq> file_writes example_kernel
   \<and> (0x10 :: u32) \<noteq> 0 \<and> LookupObject_XEvent example_kernel 0x10 \<noteq> None
   \<and> NtWriteFile_shim accepting_file example_kernel 0x20 0 0 0 0 0x1000 16 0
     = Inr (X_STATUS_INVALID_HANDLE, example_kernel)"
proof -
  have differs: "file_writes (example_kernel\<lparr>object_table := [0x10 \<mapsto> XEvent True, 0x20 \<mapsto> XFile ()],
              file_writes := [(0x20, 0x1000, 16, - 1)]\<rparr>) \<noteq> file_writes example_kernel"
    by (simp add: example_kernel_def)
  have fin: "NtWriteFile_finish example_kernel 0 0 False False X_STATUS_INVALID_HANDLE 0
      = (X_STATUS_INVALID_HANDLE, example_kernel)"
    by (simp add: NtWriteFile_finish_def)
  from NtWriteFile_null_event
    [of accepting_file example_kernel "0x20" 0 0 "0x1000" 16 0 "0x10" 0 X_STATUS_SUCCESS
       "example_kernel\<lparr>object_table := [0x10 \<mapsto> XEvent True, 0x20 \<mapsto> XFile ()],
              file_writes := [(0x20, 0x1000, 16, - 1)]\<rparr>"]
    example_write differs fin
  show ?thesis by simp
qed

section \<open>Properties of the decoder thread\<close>

lemma decode_loop_Suc:
  "decode_loop ops (Suc fuel) in0 out data dec m =
     (if loop_input_remaining data = 0 \<or> loop_output_remaining data = 0
      then Some ([], 0, data, dec, m)
      else
        case DecodePacket ops dec m out (loop_output_offset data) (loop_output_remaining data) of
          (read, dec1, m1) \<Rightarrow>
            if read < 0 then
              Some ([EvDecodePacket (loop_output_offset data) (loop_output_remaining data) read,
                     EvLog (- read), EvDiscardPacket],
                    0, data, DiscardPacket ops dec1, m1)
            else
              (case decode_loop ops fuel in0 out (loop_next_data data read)
                      (loop_next_decoder ops in0 data read dec1 m1) m1 of
                 None \<Rightarrow> None
               | Some (evs', k, rest) \<Rightarrow> Some (loop_events in0 data read @ evs', Suc k, rest)))"
  unfolding decode_loop.simps Let_def loop_input_remaining_def loop_input_size_def
      loop_input_offset_def loop_output_remaining_def loop_output_size_def
      loop_output_offset_def loop_next_data_def loop_next_decoder_def loop_events_def
  by (auto split: prod.split option.split)

lemma decode_loop_failure_step:
  assumes "loop_input_remaining data \<noteq> 0" "loop_output_remaining data \<noteq> 0"
    and "DecodePacket ops dec m out (loop_output_offset data) (loop_output_remaining data)
           = (read, dec1, m1)"
    and "read < 0"
  shows "decode_loop ops (Suc fuel) in0 out data dec m =
     Some ([EvDecodePacket (loop_output_offset data) (loop_output_remaining data) read,
            EvLog (- read), EvDiscardPacket],
           0, data, DiscardPacket ops dec1, m1)"
  using assms by (simp add: decode_loop_Suc)

lemma stops_after_failure_events:
  "0 \<le> read \<Longrightarrow> stops_after_failure (loop_events in0 data read @ evs) = stops_after_failure evs"
  by (simp add: loop_events_def)

lemma decode_loop_stops_after_failure:
  "decode_loop ops fuel in0 out data dec m = Some (evs, k, rest) \<Longrightarrow> stops_after_failure evs"
proof (induction fuel arbitrary: data dec m evs k rest)
  case 0
  then show ?case by (simp add: decode_loop.simps)
next
  case (Suc fuel)
  show ?case
  proof (cases "loop_input_remaining data = 0 \<or> loop_output_remaining data = 0")
    case True
    with Suc.prems show ?thesis by (simp add: decode_loop_Suc)
  next
    case False
    obtain read dec1 m1 where
      dp: "DecodePacket ops dec m out (loop_output_offset data) (loop_output_remaining data)
             = (read, dec1, m1)"
      by (cases "DecodePacket ops dec m out (loop_output_offset data) (loop_output_remaining data)")
    show ?thesis
    proof (cases "read < 0")
      case True
      with Suc.prems False dp show ?thesis by (auto simp add: decode_loop_Suc)
    next
      case nonneg: False
      with Suc.prems False dp obtain evs' k' where
        rec: "decode_loop ops fuel in0 out (loop_next_data data read)
                (loop_next_decoder ops in0 data read dec1 m1) m1 = Some (evs', k', rest)"
        and evs: "evs = loop_events in0 data read @ evs'"
        by (auto simp add: decode_loop_Suc split: option.splits)
      from Suc.IH [OF rec] nonneg show ?thesis
        by (simp add: evs stops_after_failure_events)
    qed
  qed
qed

lemma loop_next_data_other:
  assumes "f \<noteq> input_buffer_read_offset" "f \<noteq> output_buffer_write_offset"
  shows "get_field (loop_next_data data read) f = get_field data f"
proof -
  have a: "get_field (set_field x output_buffer_write_offset v) f = get_field x f" for x v
    using assms by (intro get_set_field_other) (cases f; simp)
  have b: "get_field (set_field x input_buffer_read_offset v) f = get_field x f" for x v
    using assms by (intro get_set_field_other) (cases f; simp)
  show ?thesis unfolding loop_next_data_def by (simp only: a b)
qed

lemma length_loop_next_data: "length (loop_next_data data read) = length data"
  by (simp add: loop_next_data_def length_set_field)

lemma decode_loop_frame:
  assumes "decode_loop ops fuel in0 out data dec m = Some (evs, k, data', dec', m')"
    and "f \<noteq> input_buffer_read_offset" "f \<noteq> output_buffer_write_offset"
  shows "get_field data' f = get_field data f \<and> length data' = length data"
  using assms(1)
proof (induction fuel arbitrary: data dec m evs k)
  case 0
  then show ?case by (simp add: decode_loop.simps)
next
  case (Suc fuel)
  show ?case
  proof (cases "loop_input_remaining data = 0 \<or> loop_output_remaining data = 0")
    case True
    with Suc.prems show ?thesis by (simp add: decode_loop_Suc)
  next
    case False
    obtain read dec1 m1 where
      dp: "DecodePacket ops dec m out (loop_output_offset data) (loop_output_remaining data)
             = (read, dec1, m1)"
      by (cases "DecodePacket ops dec m out (loop_output_offset data) (loop_output_remaining data)")
    show ?thesis
    proof (cases "read < 0")
      case True
      with Suc.prems False dp show ?thesis by (auto simp add: decode_loop_Suc)
    next
      case nonneg: False
      with Suc.prems False dp obtain evs' k' where
        rec: "decode_loop ops fuel in0 out (loop_next_data data read)
                (loop_next_decoder ops in0 data read dec1 m1) m1 = Some (evs', k', data', dec', m')"
        by (auto simp add: decode_loop_Suc split: option.splits)
      from Suc.IH [OF rec] show ?thesis
        by (simp add: loop_next_data_other [OF assms(2,3)] length_loop_next_data)
    qed
  qed
qed

lemma process_context_cases:
  assumes "process_context ops fuel s n = Some (Inr (evs, s'))"
  obtains (skipped) "evs = []" "s' = s"
  | (decoded) data3 k data4 dec' m' where
      "in_use (xma_context_array s n)"
      "data3 = set_field (set_field (set_field
          (XMA_CONTEXT_DATA_load (memory s) (TranslatePhysical (guest_ptr (xma_context_array s n))))
          input_buffer_0_valid 0) input_buffer_1_valid 0) output_buffer_valid 0"
      "decode_loop ops fuel (TranslatePhysical (get_field data3 input_buffer_0_ptr))
         (TranslatePhysical (get_field data3 output_buffer_ptr)) data3
         (decoder (xma_context_array s n)) (memory s) = Some (evs, k, data4, dec', m')"
      "s' = s\<lparr>xma_context_array := (xma_context_array s)
                 (n := (xma_context_array s n)\<lparr>decoder := dec'\<rparr>),
               memory := Store data4 m' (TranslatePhysical (guest_ptr (xma_context_array s n)))\<rparr>"
proof (cases "in_use (xma_context_array s n)")
  case False
  with assms have "evs = []" "s' = s"
    by (simp_all add: process_context_def Let_def)
  then show ?thesis by (rule skipped)
next
  case used: True
  let ?ptr = "TranslatePhysical (guest_ptr (xma_context_array s n))"
  let ?data = "XMA_CONTEXT_DATA_load (memory s) ?ptr"
  let ?data3 = "set_field (set_field (set_field ?data
          input_buffer_0_valid 0) input_buffer_1_valid 0) output_buffer_valid 0"
  show ?thesis
  proof (cases "get_field ?data input_buffer_0_valid \<noteq> 0
                 \<or> get_field ?data input_buffer_1_valid \<noteq> 0")
    case False
    with assms used have "evs = []" "s' = s"
      by (simp_all add: process_context_def Let_def)
    then show ?thesis by (rule skipped)
  next
    case valid: True
    let ?loop = "decode_loop ops fuel (TranslatePhysical (get_field ?data3 input_buffer_0_ptr))
         (TranslatePhysical (get_field ?data3 output_buffer_ptr)) ?data3
         (decoder (xma_context_array s n)) (memory s)"
    have eq: "process_context ops fuel s n =
        (if get_field ?data3 input_buffer_1_packet_count \<noteq> 0 then Some (Inl AssertionFailed)
         else (case ?loop of None \<Rightarrow> None
             | Some (evs, k, data4, dec', m') \<Rightarrow>
                 Some (Inr (evs,
                   s\<lparr>xma_context_array := (xma_context_array s)
                         (n := (xma_context_array s n)\<lparr>decoder := dec'\<rparr>),
                     memory := Store data4 m' ?ptr\<rparr>))))"
    proof (cases "get_field ?data input_buffer_0_valid \<noteq> 0")
      case True
      with used show ?thesis by (simp add: process_context_def Let_def)
    next
      case False
      with valid have "get_field ?data input_buffer_1_valid \<noteq> 0" by simp
      with used show ?thesis by (simp add: process_context_def Let_def)
    qed
    have no_assert: "get_field ?data3 input_buffer_1_packet_count = 0"
      using assms unfolding eq by (simp split: if_splits)
    have eq2: "process_context ops fuel s n =
        (case ?loop of None \<Rightarrow> None
             | Some (evs, k, data4, dec', m') \<Rightarrow>
                 Some (Inr (evs,
                   s\<lparr>xma_context_array := (xma_context_array s)
                         (n := (xma_context_array s n)\<lparr>decoder := dec'\<rparr>),
                     memory := Store data4 m' ?ptr\<rparr>)))"
      unfolding eq by (simp only: no_assert) simp
    note run = assms [unfolded eq2]
    from run obtain r where some: "?loop = Some r"
      by (cases ?loop) simp_all
    obtain evs0 k data4 dec' m' where r: "r = (evs0, k, data4, dec', m')"
      by (cases r)
    from run some r have "evs0 = evs"
      and "s' = s\<lparr>xma_context_array := (xma_context_array s)
                 (n := (xma_context_array s n)\<lparr>decoder := dec'\<rparr>),
               memory := Store data4 m' ?ptr\<rparr>"
      by simp_all
    with some r used show ?thesis
      by (intro decoded [of ?data3 k data4 dec' m']) simp_all
  qed
qed

lemma cleared_flags_other:
  assumes "f \<notin> decoder_written_fields"
  shows "get_field (set_field (set_field (set_field d input_buffer_0_valid 0)
           input_buffer_1_valid 0) output_buffer_valid 0) f = get_field d f"
proof -
  have a: "get_field (set_field x output_buffer_valid v) f = get_field x f" for x v
    using assms by (intro get_set_field_other) (cases f; simp add: decoder_written_fields_def)
  have b: "get_field (set_field x input_buffer_1_valid v) f = get_field x f" for x v
    using assms by (intro get_set_field_other) (cases f; simp add: decoder_written_fields_def)
  have c: "get_field (set_field x input_buffer_0_valid v) f = get_field x f" for x v
    using assms by (intro get_set_field_other) (cases f; simp add: decoder_written_fields_def)
  show ?thesis by (simp only: a b c)
qed

lemma process_context_effect:
  assumes "process_context ops fuel s n = Some (Inr (evs, s'))"
  shows "stops_after_failure evs
     \<and> in_use (xma_context_array s' n) = in_use (xma_context_array s n)
     \<and> guest_ptr (xma_context_array s' n) = guest_ptr (xma_context_array s n)
     \<and> (\<forall>k. k \<noteq> n \<longrightarrow> xma_context_array s' k = xma_context_array s k)
     \<and> (\<forall>f. f \<notin> decoder_written_fields \<longrightarrow>
           get_field (XMA_CONTEXT_DATA_load (memory s')
                        (TranslatePhysical (guest_ptr (xma_context_array s n)))) f
           = get_field (XMA_CONTEXT_DATA_load (memory s)
                        (TranslatePhysical (guest_ptr (xma_context_array s n)))) f)"
  using assms
proof (cases rule: process_context_cases)
  case skipped
  then show ?thesis by simp
next
  case (decoded data3 k data4 dec' m')
  let ?ptr = "TranslatePhysical (guest_ptr (xma_context_array s n))"
  let ?data = "XMA_CONTEXT_DATA_load (memory s) ?ptr"
  have len3: "length data3 = 16"
    by (simp add: decoded(2) length_set_field length_XMA_CONTEXT_DATA_load)
  have "get_field (XMA_CONTEXT_DATA_load (memory s') ?ptr) f = get_field ?data f"
    if f: "f \<notin> decoder_written_fields" for f
  proof -
    from f have ne: "f \<noteq> input_buffer_read_offset" "f \<noteq> output_buffer_write_offset"
      by (auto simp: decoder_written_fields_def)
    from decode_loop_frame [OF decoded(3) ne] len3
    have "get_field data4 f = get_field data3 f" and len4: "length data4 = 16"
      by simp_all
    moreover have "get_field data3 f = get_field ?data f"
      unfolding decoded(2) using f by (rule cleared_flags_other)
    moreover have "XMA_CONTEXT_DATA_load (memory s') ?ptr = data4"
      by (simp add: decoded(4) load_Store [OF len4])
    ultimately show ?thesis by simp
  qed
  moreover have "stops_after_failure evs"
    using decoded(3) by (rule decode_loop_stops_after_failure)
  ultimately show ?thesis by (simp add: decoded(4))
qed

lemma get_field_kicked_record:
  "get_field (kicked_record 1 1) input_buffer_0_valid = 1"
  "get_field (kicked_record 1 1) input_buffer_0_packet_count = 1"
  "get_field (kicked_record 1 1) output_buffer_block_count  = 1"
  by (simp_all add: get_field_def kicked_record_def)

lemma length_kicked_record: "length (kicked_record p b) = 16"
  by (simp add: kicked_record_def)

lemma decoding_system_context:
  "xma_context_array (decoding_system d) 0 = \<lparr>guest_ptr = 0x40000, in_use = True, decoder = d\<rparr>"
  "memory (decoding_system d) = Store (kicked_record 1 1) (\<lambda>a. 0) 0x40000"
  by (simp_all add: decoding_system_def)

lemma decoding_system_record:
  "XMA_CONTEXT_DATA_load (memory (decoding_system d)) (TranslatePhysical 0x40000)
     = kicked_record 1 1"
  by (simp add: decoding_system_context TranslatePhysical_def load_Store length_kicked_record)

text \<open>The record of \<open>decoding_system\<close> once the pass has cleared its three valid flags.\<close>

lemma claimed_record:
  "set_field (set_field (set_field (kicked_record 1 1) input_buffer_0_valid 0)
     input_buffer_1_valid 0) output_buffer_valid 0
   = [0x400001, 0, 0x20, 0, 0, 0x1000, 0, 0x3000, 0, 0, 0, 0, 0, 0, 0, 0]"
  by (simp add: set_field_def kicked_record_def mask_eq_exp_minus_1)

lemma claimed_record_loop:
  "loop_input_remaining [0x400001, 0, 0x20, 0, 0, 0x1000, 0, 0x3000, 0, 0, 0, 0, 0, 0, 0, 0] = 2048"
  "loop_output_remaining [0x400001, 0, 0x20, 0, 0, 0x1000, 0, 0x3000, 0, 0, 0, 0, 0, 0, 0, 0] = 256"
  "loop_output_offset [0x400001, 0, 0x20, 0, 0, 0x1000, 0, 0x3000, 0, 0, 0, 0, 0, 0, 0, 0] = 0"
  "get_field [0x400001, 0, 0x20, 0, 0, 0x1000, 0, 0x3000, 0, 0, 0, 0, 0, 0, 0, 0]
     input_buffer_1_packet_count = 0"
  by (simp_all add: loop_input_remaining_def loop_input_size_def loop_input_offset_def
      loop_output_remaining_def loop_output_size_def loop_output_offset_def get_field_def
      size_t_sub_def)

lemma failed_loop_events:
  "0 \<le> read \<Longrightarrow> failed (loop_events in0 data read @ evs) = failed evs"
  by (simp add: loop_events_def)

lemma completed_loop_events:
  "0 \<le> read \<Longrightarrow> completed (loop_events in0 data read @ evs) = Suc (completed evs)"
  by (simp add: loop_events_def)

lemma loop_state_Suc:
  assumes "loop_input_remaining data \<noteq> 0" "loop_output_remaining data \<noteq> 0"
    and "DecodePacket ops dec m out (loop_output_offset data) (loop_output_remaining data)
           = (read, dec1, m1)"
    and "0 \<le> read"
  shows "loop_state ops (Suc k) in0 out data dec m
     = loop_state ops k in0 out (loop_next_data data read)
         (loop_next_decoder ops in0 data read dec1 m1) m1"
  using assms by (simp add: loop_state.simps)

lemma decode_loop_failed:
  assumes "decode_loop ops fuel in0 out data dec m = Some (evs, k, data', dec', m')"
    and "failed evs"
  shows "k = completed evs
     \<and> (\<exists>deck mk read dec1.
          loop_state ops k in0 out data dec m = Some (data', deck, mk)
          \<and> loop_input_remaining data' \<noteq> 0 \<and> loop_output_remaining data' \<noteq> 0
          \<and> DecodePacket ops deck mk out (loop_output_offset data') (loop_output_remaining data')
              = (read, dec1, m')
          \<and> read < 0 \<and> dec' = DiscardPacket ops dec1)"
  using assms
proof (induction fuel arbitrary: data dec m evs k)
  case 0
  then show ?case by (simp add: decode_loop.simps)
next
  case (Suc fuel)
  show ?case
  proof (cases "loop_input_remaining data = 0 \<or> loop_output_remaining data = 0")
    case True
    with Suc.prems show ?thesis by (simp add: decode_loop_Suc)
  next
    case False
    then have rem: "loop_input_remaining data \<noteq> 0" "loop_output_remaining data \<noteq> 0"
      by simp_all
    obtain read dec1 m1 where
      dp: "DecodePacket ops dec m out (loop_output_offset data) (loop_output_remaining data)
             = (read, dec1, m1)"
      by (cases "DecodePacket ops dec m out (loop_output_offset data) (loop_output_remaining data)")
    show ?thesis
    proof (cases "read < 0")
      case True
      with Suc.prems(1) False dp have
        "evs = [EvDecodePacket (loop_output_offset data) (loop_output_remaining data) read,
                EvLog (- read), EvDiscardPacket]"
        "k = 0" "data' = data" "dec' = DiscardPacket ops dec1" "m' = m1"
        by (auto simp add: decode_loop_Suc)
      with True rem dp show ?thesis
        by (simp add: loop_state.simps)
    next
      case nonneg: False
      with Suc.prems(1) False dp obtain evs' k' where
        rec: "decode_loop ops fuel in0 out (loop_next_data data read)
                (loop_next_decoder ops in0 data read dec1 m1) m1 = Some (evs', k', data', dec', m')"
        and evs: "evs = loop_events in0 data read @ evs'" and k: "k = Suc k'"
        by (auto simp add: decode_loop_Suc split: option.splits)
      from Suc.prems(2) nonneg have "failed evs'"
        by (simp add: evs failed_loop_events)
      from Suc.IH [OF rec this] nonneg show ?thesis
        by (auto simp add: evs k completed_loop_events loop_state_Suc [OF rem dp])
    qed
  qed
qed

lemma decode_loop_fails_after:
  assumes "loop_state ops k in0 out data dec m = Some (dk, deck, mk)"
    and "loop_input_remaining dk \<noteq> 0" "loop_output_remaining dk \<noteq> 0"
    and "DecodePacket ops deck mk out (loop_output_offset dk) (loop_output_remaining dk)
           = (read, dec1, m1)"
    and "read < 0"
  shows "\<exists>evs. decode_loop ops (Suc (k + fuel)) in0 out data dec m
            = Some (evs, k, dk, DiscardPacket ops dec1, m1)
          \<and> failed evs \<and> completed evs = k \<and> stops_after_failure evs"
  using assms(1)
proof (induction k arbitrary: data dec m)
  case 0
  then have "dk = data" "deck = dec" "mk = m"
    by (simp_all add: loop_state.simps)
  with assms(2-5) show ?case
    by (simp add: decode_loop_failure_step)
next
  case (Suc k)
  from Suc.prems have rem: "loop_input_remaining data \<noteq> 0" "loop_output_remaining data \<noteq> 0"
    by (auto simp add: loop_state.simps split: if_splits)
  obtain r d1 mm where
    dp: "DecodePacket ops dec m out (loop_output_offset data) (loop_output_remaining data)
           = (r, d1, mm)"
    by (cases "DecodePacket ops dec m out (loop_output_offset data) (loop_output_remaining data)")
  from Suc.prems rem dp have nonneg: "0 \<le> r"
    by (auto simp add: loop_state.simps split: if_splits)
  from Suc.prems have
    "loop_state ops k in0 out (loop_next_data data r) (loop_next_decoder ops in0 data r d1 mm) mm
       = Some (dk, deck, mk)"
    by (simp add: loop_state_Suc [OF rem dp nonneg])
  from Suc.IH [OF this] obtain evs where
    rec: "decode_loop ops (Suc (k + fuel)) in0 out (loop_next_data data r)
            (loop_next_decoder ops in0 data r d1 mm) mm
          = Some (evs, k, dk, DiscardPacket ops dec1, m1)"
    and evs: "failed evs" "completed evs = k" "stops_after_failure evs"
    by blast
  have "decode_loop ops (Suc (Suc k + fuel)) in0 out data dec m
      = Some (loop_events in0 data r @ evs, Suc k, dk, DiscardPacket ops dec1, m1)"
    using rem dp nonneg rec by (simp add: decode_loop_Suc [of ops "Suc (k + fuel)"])
  with evs nonneg show ?case
    by (simp add: failed_loop_events completed_loop_events stops_after_failure_events)
qed

lemma process_context_valid:
  assumes "in_use (xma_context_array s n)"
    and "get_field (XMA_CONTEXT_DATA_load (memory s)
             (TranslatePhysical (guest_ptr (xma_context_array s n)))) input_buffer_0_valid \<noteq> 0
         \<or> get_field (XMA_CONTEXT_DATA_load (memory s)
             (TranslatePhysical (guest_ptr (xma_context_array s n)))) input_buffer_1_valid \<noteq> 0"
    and "get_field (claimed_data s n) input_buffer_1_packet_count = 0"
  shows "process_context ops fuel s n =
     (case decode_loop ops fuel
             (TranslatePhysical (get_field (claimed_data s n) input_buffer_0_ptr))
             (TranslatePhysical (get_field (claimed_data s n) output_buffer_ptr))
             (claimed_data s n) (decoder (xma_context_array s n)) (memory s) of
        None \<Rightarrow> None
      | Some (evs, k, data4, dec', m') \<Rightarrow>
          Some (Inr (evs,
            s\<lparr>xma_context_array := (xma_context_array s)
                  (n := (xma_context_array s n)\<lparr>decoder := dec'\<rparr>),
              memory := Store data4 m' (TranslatePhysical (guest_ptr (xma_context_array s n)))\<rparr>)))"
proof (cases "get_field (XMA_CONTEXT_DATA_load (memory s)
             (TranslatePhysical (guest_ptr (xma_context_array s n)))) input_buffer_0_valid \<noteq> 0")
  case True
  with assms(1,3) show ?thesis
    by (simp add: process_context_def Let_def claimed_data_def)
next
  case False
  with assms(2) have "get_field (XMA_CONTEXT_DATA_load (memory s)
             (TranslatePhysical (guest_ptr (xma_context_array s n)))) input_buffer_1_valid \<noteq> 0"
    by simp
  with assms(1,3) show ?thesis
    by (simp add: process_context_def Let_def claimed_data_def)
qed

lemma process_context_fails:
  assumes "in_use (xma_context_array s n)"
    and "get_field (XMA_CONTEXT_DATA_load (memory s)
             (TranslatePhysical (guest_ptr (xma_context_array s n)))) input_buffer_0_valid \<noteq> 0
         \<or> get_field (XMA_CONTEXT_DATA_load (memory s)
             (TranslatePhysical (guest_ptr (xma_context_array s n)))) input_buffer_1_valid \<noteq> 0"
    and "get_field (claimed_data s n) input_buffer_1_packet_count = 0"
    and "loop_state ops k (TranslatePhysical (get_field (claimed_data s n) input_buffer_0_ptr))
           (TranslatePhysical (get_field (claimed_data s n) output_buffer_ptr))
           (claimed_data s n) (decoder (xma_context_array s n)) (memory s) = Some (dk, deck, mk)"
    and "loop_input_remaining dk \<noteq> 0" "loop_output_remaining dk \<noteq> 0"
    and "DecodePacket ops deck mk
           (TranslatePhysical (get_field (claimed_data s n) output_buffer_ptr))
           (loop_output_offset dk) (loop_output_remaining dk) = (read, dec1, m1)"
    and "read < 0"
  shows "\<exists>evs. process_context ops (Suc (k + fuel)) s n
           = Some (Inr (evs,
               s\<lparr>xma_context_array := (xma_context_array s)
                     (n := (xma_context_array s n)\<lparr>decoder := DiscardPacket ops dec1\<rparr>),
                 memory := Store dk m1 (TranslatePhysical (guest_ptr (xma_context_array s n)))\<rparr>))
         \<and> failed evs \<and> completed evs = k \<and> stops_after_failure evs"
proof -
  from decode_loop_fails_after [OF assms(4-8), of fuel] obtain evs where
    "decode_loop ops (Suc (k + fuel))
       (TranslatePhysical (get_field (claimed_data s n) input_buffer_0_ptr))
       (TranslatePhysical (get_field (claimed_data s n) output_buffer_ptr))
       (claimed_data s n) (decoder (xma_context_array s n)) (memory s)
     = Some (evs, k, dk, DiscardPacket ops dec1, m1)"
    and "failed evs" "completed evs = k" "stops_after_failure evs"
    by blast
  then show ?thesis
    by (simp add: process_context_valid [OF assms(1-3)])
qed

lemma process_context_failed:
  assumes "process_context ops fuel s n = Some (Inr (evs, s'))" and "failed evs"
  shows "in_use (xma_context_array s n)
     \<and> (\<exists>dk deck mk read dec1 m1.
          loop_state ops (completed evs)
            (TranslatePhysical (get_field (claimed_data s n) input_buffer_0_ptr))
            (TranslatePhysical (get_field (claimed_data s n) output_buffer_ptr))
            (claimed_data s n) (decoder (xma_context_array s n)) (memory s) = Some (dk, deck, mk)
          \<and> DecodePacket ops deck mk
              (TranslatePhysical (get_field (claimed_data s n) output_buffer_ptr))
              (loop_output_offset dk) (loop_output_remaining dk) = (read, dec1, m1)
          \<and> read < 0
          \<and> s' = s\<lparr>xma_context_array := (xma_context_array s)
                      (n := (xma_context_array s n)\<lparr>decoder := DiscardPacket ops dec1\<rparr>),
                    memory := Store dk m1
                      (TranslatePhysical (guest_ptr (xma_context_array s n)))\<rparr>)"
  using assms(1)
proof (cases rule: process_context_cases)
  case skipped
  with assms(2) show ?thesis by simp
next
  case (decoded data3 k data4 dec' m')
  have d3: "data3 = claimed_data s n"
    by (simp add: decoded(2) claimed_data_def)
  from decode_loop_failed [OF decoded(3) assms(2)] decoded(1,4) show ?thesis
    unfolding d3 by blast
qed

lemma corrupt_packet_pass:
  "\<exists>s'. process_context corrupt_packet_decoder 1 (decoding_system (False, 0)) 0
     = Some (Inr ([EvDecodePacket 0 256 (- 1), EvLog 1, EvDiscardPacket], s'))"
  by (simp add: process_context_def Let_def decoding_system_record claimed_record
      claimed_record_loop decode_loop_Suc [of _ 0, simplified] get_field_kicked_record
      decoding_system_context(1) corrupt_packet_decoder_def)

lemma claimed_data_decoding_system:
  "claimed_data (decoding_system d) 0
     = [0x400001, 0, 0x20, 0, 0, 0x1000, 0, 0x3000, 0, 0, 0, 0, 0, 0, 0, 0]"
  by (simp add: claimed_data_def decoding_system_context(1) decoding_system_record claimed_record)

lemma claimed_record_pointers:
  "TranslatePhysical (get_field [0x400001, 0, 0x20, 0, 0, 0x1000, 0, 0x3000, 0, 0, 0, 0, 0, 0, 0, 0]
     input_buffer_0_ptr) = 0x1000"
  "TranslatePhysical (get_field [0x400001, 0, 0x20, 0, 0, 0x1000, 0, 0x3000, 0, 0, 0, 0, 0, 0, 0, 0]
     output_buffer_ptr) = 0x3000"
  by (simp_all add: get_field_def TranslatePhysical_def)

text \<open>Claim C8. When \<open>DecodePacket\<close> returns a negative result the loop ends in that
  iteration, whatever fuel is left: the trace is the call, the log entry and
  \<open>DiscardPacket\<close>, the record is as it was at the start of the iteration, and the decoder is
  the one the failed call left, with its packet discarded. For every pass over a context
  that returns, a failed \<open>DecodePacket\<close> in its trace is followed by the log entry and the
  discard and nothing else; the in-use flag and the guest address of the context are
  unchanged, the decoder stays in its slot, every other slot is unchanged, and the record
  stored back differs from the record loaded only in the three valid flags, the read offset
  and the write offset: no error field is written. A pass over a context in use with a valid
  input buffer, in which \<open>k\<close> iterations run to the end and the next call of
  \<open>DecodePacket\<close> fails, returns with any fuel above \<open>k\<close>, and its result is the state in
  which the decoder of the slot is the one the failed call left with \<open>DiscardPacket\<close>
  applied, and guest memory is the memory the failed call left with the record of that
  iteration stored at the address of the context. Every pass that returns with a failed call
  in its trace has such a result.\<close>

theorem decode_failure_stops_pass:
  "(loop_input_remaining data \<noteq> 0 \<and> loop_output_remaining data \<noteq> 0
      \<and> DecodePacket ops dec m out (loop_output_offset data) (loop_output_remaining data)
          = (read, dec1, m1)
      \<and> read < 0
      \<longrightarrow> decode_loop ops (Suc fuel) in0 out data dec m =
            Some ([EvDecodePacket (loop_output_offset data) (loop_output_remaining data) read,
                   EvLog (- read), EvDiscardPacket],
                  0, data, DiscardPacket ops dec1, m1))
   \<and> (process_context ops fuel' s n = Some (Inr (evs, s'))
      \<longrightarrow> stops_after_failure evs
        \<and> in_use (xma_context_array s' n) = in_use (xma_context_array s n)
        \<and> guest_ptr (xma_context_array s' n) = guest_ptr (xma_context_array s n)
        \<and> (\<forall>k. k \<noteq> n \<longrightarrow> xma_context_array s' k = xma_context_array s k)
        \<and> (\<forall>f. f \<notin> decoder_written_fields \<longrightarrow>
              get_field (XMA_CONTEXT_DATA_load (memory s')
                           (TranslatePhysical (guest_ptr (xma_context_array s n)))) f
              = get_field (XMA_CONTEXT_DATA_load (memory s)
                           (TranslatePhysical (guest_ptr (xma_context_array s n)))) f))
   \<and> (in_use (xma_context_array s n)
      \<and> (get_field (XMA_CONTEXT_DATA_load (memory s)
             (TranslatePhysical (guest_ptr (xma_context_array s n)))) input_buffer_0_valid \<noteq> 0
         \<or> get_field (XMA_CONTEXT_DATA_load (memory s)
             (TranslatePhysical (guest_ptr (xma_context_array s n)))) input_buffer_1_valid \<noteq> 0)
      \<and> get_field (claimed_data s n) input_buffer_1_packet_count = 0
      \<and> loop_state ops k (TranslatePhysical (get_field (claimed_data s n) input_buffer_0_ptr))
           (TranslatePhysical (get_field (claimed_data s n) output_buffer_ptr))
           (claimed_data s n) (decoder (xma_context_array s n)) (memory s) = Some (dk, deck, mk)
      \<and> loop_input_remaining dk \<noteq> 0 \<and> loop_output_remaining dk \<noteq> 0
      \<and> DecodePacket ops deck mk
           (TranslatePhysical (get_field (claimed_data s n) output_buffer_ptr))
           (loop_output_offset dk) (loop_output_remaining dk) = (r, d1, mm)
      \<and> r < 0
      \<longrightarrow> (\<exists>es. process_context ops (Suc (k + fuel'')) s n
                  = Some (Inr (es,
                      s\<lparr>xma_context_array := (xma_context_array s)
                            (n := (xma_context_array s n)\<lparr>decoder := DiscardPacket ops d1\<rparr>),
                        memory := Store dk mm
                          (TranslatePhysical (guest_ptr (xma_context_array s n)))\<rparr>))
                \<and> failed es \<and> completed es = k \<and> stops_after_failure es))
   \<and> (process_context ops fuel' s n = Some (Inr (evs, s')) \<and> failed evs
      \<longrightarrow> in_use (xma_context_array s n)
        \<and> (\<exists>dl decl ml rl dl1 ml1.
             loop_state ops (completed evs)
               (TranslatePhysical (get_field (claimed_data s n) input_buffer_0_ptr))
               (TranslatePhysical (get_field (claimed_data s n) output_buffer_ptr))
               (claimed_data s n) (decoder (xma_context_array s n)) (memory s)
               = Some (dl, decl, ml)
             \<and> DecodePacket ops decl ml
                 (TranslatePhysical (get_field (claimed_data s n) output_buffer_ptr))
                 (loop_output_offset dl) (loop_output_remaining dl) = (rl, dl1, ml1)
             \<and> rl < 0
             \<and> s' = s\<lparr>xma_context_array := (xma_context_array s)
                         (n := (xma_context_array s n)\<lparr>decoder := DiscardPacket ops dl1\<rparr>),
                       memory := Store dl ml1
                         (TranslatePhysical (guest_ptr (xma_context_array s n)))\<rparr>))"
proof (intro conjI impI)
  assume "loop_input_remaining data \<noteq> 0 \<and> loop_output_remaining data \<noteq> 0
      \<and> DecodePacket ops dec m out (loop_output_offset data) (loop_output_remaining data)
          = (read, dec1, m1)
      \<and> read < 0"
  then show "decode_loop ops (Suc fuel) in0 out data dec m =
            Some ([EvDecodePacket (loop_output_offset data) (loop_output_remaining data) read,
                   EvLog (- read), EvDiscardPacket],
                  0, data, DiscardPacket ops dec1, m1)"
    using decode_loop_failure_step [of data ops dec m out read dec1 m1 fuel in0] by blast
next
  assume pass: "process_context ops fuel' s n = Some (Inr (evs, s'))"
  from process_context_effect [OF pass]
  show "stops_after_failure evs"
    and "in_use (xma_context_array s' n) = in_use (xma_context_array s n)"
    and "guest_ptr (xma_context_array s' n) = guest_ptr (xma_context_array s n)"
    and "\<forall>k. k \<noteq> n \<longrightarrow> xma_context_array s' k = xma_context_array s k"
    and "\<forall>f. f \<notin> decoder_written_fields \<longrightarrow>
              get_field (XMA_CONTEXT_DATA_load (memory s')
                           (TranslatePhysical (guest_ptr (xma_context_array s n)))) f
              = get_field (XMA_CONTEXT_DATA_load (memory s)
                           (TranslatePhysical (guest_ptr (xma_context_array s n)))) f"
    by blast+
next
  assume h: "in_use (xma_context_array s n)
      \<and> (get_field (XMA_CONTEXT_DATA_load (memory s)
             (TranslatePhysical (guest_ptr (xma_context_array s n)))) input_buffer_0_valid \<noteq> 0
         \<or> get_field (XMA_CONTEXT_DATA_load (memory s)
             (TranslatePhysical (guest_ptr (xma_context_array s n)))) input_buffer_1_valid \<noteq> 0)
      \<and> get_field (claimed_data s n) input_buffer_1_packet_count = 0
      \<and> loop_state ops k (TranslatePhysical (get_field (claimed_data s n) input_buffer_0_ptr))
           (TranslatePhysical (get_field (claimed_data s n) output_buffer_ptr))
           (claimed_data s n) (decoder (xma_context_array s n)) (memory s) = Some (dk, deck, mk)
      \<and> loop_input_remaining dk \<noteq> 0 \<and> loop_output_remaining dk \<noteq> 0
      \<and> DecodePacket ops deck mk
           (TranslatePhysical (get_field (claimed_data s n) output_buffer_ptr))
           (loop_output_offset dk) (loop_output_remaining dk) = (r, d1, mm)
      \<and> r < 0"
  show "\<exists>es. process_context ops (Suc (k + fuel'')) s n
                  = Some (Inr (es,
                      s\<lparr>xma_context_array := (xma_context_array s)
                            (n := (xma_context_array s n)\<lparr>decoder := DiscardPacket ops d1\<rparr>),
                        memory := Store dk mm
                          (TranslatePhysical (guest_ptr (xma_context_array s n)))\<rparr>))
                \<and> failed es \<and> completed es = k \<and> stops_after_failure es"
    by (rule process_context_fails) (use h in blast)+
next
  assume "process_context ops fuel' s n = Some (Inr (evs, s')) \<and> failed evs"
  then have pass: "process_context ops fuel' s n = Some (Inr (evs, s'))" and f: "failed evs"
    by blast+
  from process_context_failed [OF pass f]
  show "in_use (xma_context_array s n)"
    and "\<exists>dl decl ml rl dl1 ml1.
             loop_state ops (completed evs)
               (TranslatePhysical (get_field (claimed_data s n) input_buffer_0_ptr))
               (TranslatePhysical (get_field (claimed_data s n) output_buffer_ptr))
               (claimed_data s n) (decoder (xma_context_array s n)) (memory s)
               = Some (dl, decl, ml)
             \<and> DecodePacket ops decl ml
                 (TranslatePhysical (get_field (claimed_data s n) output_buffer_ptr))
                 (loop_output_offset dl) (loop_output_remaining dl) = (rl, dl1, ml1)
             \<and> rl < 0
             \<and> s' = s\<lparr>xma_context_array := (xma_context_array s)
                         (n := (xma_context_array s n)\<lparr>decoder := DiscardPacket ops dl1\<rparr>),
                       memory := Store dl ml1
                         (TranslatePhysical (guest_ptr (xma_context_array s n)))\<rparr>"
    by blast+
qed

theorem decode_failure_stops_pass_witness:
  "loop_input_remaining [0x400001, 0, 0x20, 0, 0, 0x1000, 0, 0x3000, 0, 0, 0, 0, 0, 0, 0, 0] \<noteq> 0
   \<and> loop_output_remaining [0x400001, 0, 0x20, 0, 0, 0x1000, 0, 0x3000, 0, 0, 0, 0, 0, 0, 0, 0] \<noteq> 0
   \<and> DecodePacket corrupt_packet_decoder (False, 0) (\<lambda>a. 0) 0x3000 0 256
       = (- 1, (True, 1), (\<lambda>a. 0)(0x3000 := 0xEE))
   \<and> decode_loop corrupt_packet_decoder (Suc 5) 0x1000 0x3000
         [0x400001, 0, 0x20, 0, 0, 0x1000, 0, 0x3000, 0, 0, 0, 0, 0, 0, 0, 0] (False, 0) (\<lambda>a. 0)
       = Some ([EvDecodePacket 0 256 (- 1), EvLog 1, EvDiscardPacket], 0,
               [0x400001, 0, 0x20, 0, 0, 0x1000, 0, 0x3000, 0, 0, 0, 0, 0, 0, 0, 0], (False, 1),
               (\<lambda>a. 0)(0x3000 := 0xEE))
   \<and> in_use (xma_context_array (decoding_system (False, 0 :: nat)) 0)
   \<and> get_field (XMA_CONTEXT_DATA_load (memory (decoding_system (False, 0 :: nat)))
         (TranslatePhysical 0x40000)) input_buffer_0_valid \<noteq> 0
   \<and> claimed_data (decoding_system (False, 0 :: nat)) 0
       = [0x400001, 0, 0x20, 0, 0, 0x1000, 0, 0x3000, 0, 0, 0, 0, 0, 0, 0, 0]
   \<and> loop_state corrupt_packet_decoder 0 0x1000 0x3000
         [0x400001, 0, 0x20, 0, 0, 0x1000, 0, 0x3000, 0, 0, 0, 0, 0, 0, 0, 0] (False, 0)
         (memory (decoding_system (False, 0 :: nat)))
       = Some ([0x400001, 0, 0x20, 0, 0, 0x1000, 0, 0x3000, 0, 0, 0, 0, 0, 0, 0, 0], (False, 0),
               memory (decoding_system (False, 0 :: nat)))
   \<and> (\<exists>es. process_context corrupt_packet_decoder 3 (decoding_system (False, 0)) 0
           = Some (Inr (es, (decoding_system (False, 0))
               \<lparr>xma_context_array := (xma_context_array (decoding_system (False, 0)))
                    (0 := \<lparr>guest_ptr = 0x40000, in_use = True, decoder = (False, 1)\<rparr>),
                 memory := Store [0x400001, 0, 0x20, 0, 0, 0x1000, 0, 0x3000, 0, 0, 0, 0, 0, 0, 0, 0]
                             ((memory (decoding_system (False, 0 :: nat)))(0x3000 := 0xEE))
                             0x40000\<rparr>))
         \<and> failed es \<and> completed es = 0 \<and> stops_after_failure es)
   \<and> (\<exists>s'. process_context corrupt_packet_decoder 1 (decoding_system (False, 0)) 0
           = Some (Inr ([EvDecodePacket 0 256 (- 1), EvLog 1, EvDiscardPacket], s'))
         \<and> in_use (xma_context_array s' 0)
         \<and> guest_ptr (xma_context_array s' 0) = 0x40000
         \<and> decoder (xma_context_array s' 0) = (False, 1)
         \<and> XMA_CONTEXT_DATA_load (memory s') (TranslatePhysical 0x40000)
             = [0x400001, 0, 0x20, 0, 0, 0x1000, 0, 0x3000, 0, 0, 0, 0, 0, 0, 0, 0]
         \<and> memory s' 0x3000 = 0xEE
         \<and> get_field (XMA_CONTEXT_DATA_load (memory s') (TranslatePhysical 0x40000)) unk_dword_2
             = 0
         \<and> s' = (decoding_system (False, 0))
               \<lparr>xma_context_array := (xma_context_array (decoding_system (False, 0)))
                    (0 := \<lparr>guest_ptr = 0x40000, in_use = True, decoder = (False, 1)\<rparr>),
                 memory := Store [0x400001, 0, 0x20, 0, 0, 0x1000, 0, 0x3000, 0, 0, 0, 0, 0, 0, 0, 0]
                             ((memory (decoding_system (False, 0 :: nat)))(0x3000 := 0xEE))
                             0x40000\<rparr>)"
proof -
  let ?rec = "[0x400001, 0, 0x20, 0, 0, 0x1000, 0, 0x3000, 0, 0, 0, 0, 0, 0, 0, 0] :: u32 list"
  let ?ops = "corrupt_packet_decoder"
  let ?s = "decoding_system (False, 0 :: nat)"
  let ?evs = "[EvDecodePacket 0 256 (- 1), EvLog 1, EvDiscardPacket]"
  note th = decode_failure_stops_pass
  have a: "loop_input_remaining ?rec \<noteq> 0" "loop_output_remaining ?rec \<noteq> 0"
    by (simp_all add: claimed_record_loop)
  have b: "DecodePacket ?ops (False, 0) (\<lambda>a. 0) 0x3000 (loop_output_offset ?rec)
             (loop_output_remaining ?rec) = (- 1, (True, 1), (\<lambda>a. 0)(0x3000 := 0xEE))"
    by (simp add: corrupt_packet_decoder_def claimed_record_loop)
  have "- 1 < (0 :: int)" by simp
  note hyp = conjI [OF a(1) conjI [OF a(2) conjI [OF b this]]]
  have "decode_loop ?ops (Suc 5) 0x1000 0x3000 ?rec (False, 0) (\<lambda>a. 0)
       = Some ([EvDecodePacket (loop_output_offset ?rec) (loop_output_remaining ?rec) (- 1),
                EvLog (- (- 1)), EvDiscardPacket], 0, ?rec,
               DiscardPacket ?ops (True, 1), (\<lambda>a. 0)(0x3000 := 0xEE))"
    by (rule th [where data = ?rec and ops = ?ops and dec = "(False, 0)" and m = "\<lambda>a. 0"
      and out = "0x3000" and read = "- 1" and ?dec1.0 = "(True, 1)"
      and ?m1.0 = "(\<lambda>a. 0)(0x3000 := 0xEE)" and fuel = 5 and ?in0.0 = "0x1000",
      THEN conjunct1, THEN mp, OF hyp])
  then have loop: "decode_loop ?ops (Suc 5) 0x1000 0x3000 ?rec (False, 0) (\<lambda>a. 0)
       = Some (?evs, 0, ?rec, (False, 1), (\<lambda>a. 0)(0x3000 := 0xEE))"
    by (simp add: claimed_record_loop corrupt_packet_decoder_def)
  have used: "in_use (xma_context_array ?s 0)"
    and gp: "guest_ptr (xma_context_array ?s 0) = 0x40000"
    and dec: "decoder (xma_context_array ?s 0) = (False, 0)"
    by (simp_all add: decoding_system_context(1))
  have valid: "get_field (XMA_CONTEXT_DATA_load (memory ?s) (TranslatePhysical 0x40000))
      input_buffer_0_valid \<noteq> 0"
    by (simp add: decoding_system_record get_field_kicked_record)
  have cd: "claimed_data ?s 0 = ?rec"
    by (rule claimed_data_decoding_system)
  from corrupt_packet_pass obtain s' where
    pass: "process_context ?ops 1 ?s 0 = Some (Inr (?evs, s'))"
    by blast
  have failed: "failed ?evs" and completed: "completed ?evs = 0"
    by simp_all
  have unk: "unk_dword_2 \<notin> decoder_written_fields"
    by (simp add: decoder_written_fields_def)
  have zero: "get_field (kicked_record 1 1) unk_dword_2 = 0"
    by (simp add: get_field_def kicked_record_def)
  note inst = th [where ops = ?ops and fuel' = 1 and s = ?s and n = 0 and evs = ?evs and s' = s']
  note c2 = inst [THEN conjunct2, THEN conjunct1, THEN mp, OF pass]
  note c4 = inst [THEN conjunct2, THEN conjunct2, THEN conjunct2, THEN mp,
      OF conjI [OF pass failed]]
  from c2 c4
  have frame: "in_use (xma_context_array s' 0) = in_use (xma_context_array ?s 0)"
      "guest_ptr (xma_context_array s' 0) = guest_ptr (xma_context_array ?s 0)"
      "\<forall>f. f \<notin> decoder_written_fields \<longrightarrow>
              get_field (XMA_CONTEXT_DATA_load (memory s')
                (TranslatePhysical (guest_ptr (xma_context_array ?s 0)))) f
              = get_field (XMA_CONTEXT_DATA_load (memory ?s)
                (TranslatePhysical (guest_ptr (xma_context_array ?s 0)))) f"
    and pinned: "\<exists>dl decl ml rl dl1 ml1.
             loop_state ?ops (completed ?evs)
               (TranslatePhysical (get_field (claimed_data ?s 0) input_buffer_0_ptr))
               (TranslatePhysical (get_field (claimed_data ?s 0) output_buffer_ptr))
               (claimed_data ?s 0) (decoder (xma_context_array ?s 0)) (memory ?s)
               = Some (dl, decl, ml)
             \<and> DecodePacket ?ops decl ml
                 (TranslatePhysical (get_field (claimed_data ?s 0) output_buffer_ptr))
                 (loop_output_offset dl) (loop_output_remaining dl) = (rl, dl1, ml1)
             \<and> rl < 0
             \<and> s' = ?s\<lparr>xma_context_array := (xma_context_array ?s)
                         (0 := (xma_context_array ?s 0)\<lparr>decoder := DiscardPacket ?ops dl1\<rparr>),
                       memory := Store dl ml1
                         (TranslatePhysical (guest_ptr (xma_context_array ?s 0)))\<rparr>"
    by blast+
  from pinned obtain dl decl ml rl dl1 ml1 where
    ls: "loop_state ?ops 0 0x1000 0x3000 ?rec (False, 0) (memory ?s) = Some (dl, decl, ml)"
    and dp: "DecodePacket ?ops decl ml 0x3000 (loop_output_offset dl) (loop_output_remaining dl)
               = (rl, dl1, ml1)"
    and s': "s' = ?s\<lparr>xma_context_array := (xma_context_array ?s)
                         (0 := (xma_context_array ?s 0)\<lparr>decoder := DiscardPacket ?ops dl1\<rparr>),
                       memory := Store dl ml1 (TranslatePhysical 0x40000)\<rparr>"
    unfolding cd claimed_record_pointers completed dec gp by blast
  from ls have "dl = ?rec" "decl = (False, 0)" "ml = memory ?s"
    by (auto simp add: loop_state.simps)
  with dp have "dl1 = (True, 1)" "ml1 = (memory ?s)(0x3000 := 0xEE)"
    by (simp_all add: corrupt_packet_decoder_def claimed_record_loop)
  with s' \<open>dl = ?rec\<close> have s'_eq: "s' = ?s
               \<lparr>xma_context_array := (xma_context_array ?s)
                    (0 := \<lparr>guest_ptr = 0x40000, in_use = True, decoder = (False, 1)\<rparr>),
                 memory := Store ?rec ((memory ?s)(0x3000 := 0xEE)) 0x40000\<rparr>"
    by (simp add: decoding_system_context(1) corrupt_packet_decoder_def TranslatePhysical_def)
  have len: "length ?rec = 16" by simp
  have stored: "XMA_CONTEXT_DATA_load (memory s') (TranslatePhysical 0x40000) = ?rec"
    unfolding s'_eq using load_Store [OF len, of "(memory ?s)(0x3000 := 0xEE)" "0x40000"]
    by (simp add: TranslatePhysical_def)
  have byte: "memory s' 0x3000 = 0xEE"
    unfolding s'_eq
    using Store_other [of "0x3000" "0x40000" ?rec "(memory ?s)(0x3000 := 0xEE)"]
    by simp
  from frame unk zero have "in_use (xma_context_array s' 0)"
    and "guest_ptr (xma_context_array s' 0) = 0x40000"
    and "get_field (XMA_CONTEXT_DATA_load (memory s') (TranslatePhysical 0x40000)) unk_dword_2 = 0"
    by (simp_all add: decoding_system_context(1) decoding_system_record)
  moreover have "decoder (xma_context_array s' 0) = (False, 1)"
    unfolding s'_eq by simp
  ultimately have ex: "\<exists>s'. process_context ?ops 1 ?s 0 = Some (Inr (?evs, s'))
         \<and> in_use (xma_context_array s' 0)
         \<and> guest_ptr (xma_context_array s' 0) = 0x40000
         \<and> decoder (xma_context_array s' 0) = (False, 1)
         \<and> XMA_CONTEXT_DATA_load (memory s') (TranslatePhysical 0x40000) = ?rec
         \<and> memory s' 0x3000 = 0xEE
         \<and> get_field (XMA_CONTEXT_DATA_load (memory s') (TranslatePhysical 0x40000)) unk_dword_2
             = 0
         \<and> s' = ?s
               \<lparr>xma_context_array := (xma_context_array ?s)
                    (0 := \<lparr>guest_ptr = 0x40000, in_use = True, decoder = (False, 1)\<rparr>),
                 memory := Store ?rec ((memory ?s)(0x3000 := 0xEE)) 0x40000\<rparr>"
    using pass stored byte s'_eq by blast
  have ls0: "loop_state ?ops 0 0x1000 0x3000 ?rec (False, 0) (memory ?s)
      = Some (?rec, (False, 0), memory ?s)"
    by (simp add: loop_state.simps)
  have h2: "get_field (XMA_CONTEXT_DATA_load (memory ?s)
             (TranslatePhysical (guest_ptr (xma_context_array ?s 0)))) input_buffer_0_valid \<noteq> 0
         \<or> get_field (XMA_CONTEXT_DATA_load (memory ?s)
             (TranslatePhysical (guest_ptr (xma_context_array ?s 0)))) input_buffer_1_valid \<noteq> 0"
    using valid by (simp add: gp)
  have h3: "get_field (claimed_data ?s 0) input_buffer_1_packet_count = 0"
    by (simp add: cd claimed_record_loop)
  have h4: "loop_state ?ops 0
           (TranslatePhysical (get_field (claimed_data ?s 0) input_buffer_0_ptr))
           (TranslatePhysical (get_field (claimed_data ?s 0) output_buffer_ptr))
           (claimed_data ?s 0) (decoder (xma_context_array ?s 0)) (memory ?s)
         = Some (?rec, (False, 0), memory ?s)"
    unfolding cd claimed_record_pointers dec by (rule ls0)
  have h7: "DecodePacket ?ops (False, 0) (memory ?s)
           (TranslatePhysical (get_field (claimed_data ?s 0) output_buffer_ptr))
           (loop_output_offset ?rec) (loop_output_remaining ?rec)
         = (- 1, (True, 1), (memory ?s)(0x3000 := 0xEE))"
    unfolding cd claimed_record_pointers
    by (simp add: corrupt_packet_decoder_def claimed_record_loop)
  have e1: "DiscardPacket ?ops (True, 1) = (False, 1)"
    by (simp add: corrupt_packet_decoder_def)
  have e2: "Suc (0 + 2) = 3"
    by simp
  have e3: "TranslatePhysical (guest_ptr (xma_context_array ?s 0)) = 0x40000"
    by (simp add: gp TranslatePhysical_def)
  have e4: "(xma_context_array ?s 0)\<lparr>decoder := (False, 1)\<rparr>
      = \<lparr>guest_ptr = 0x40000, in_use = True, decoder = (False, 1)\<rparr>"
    by (simp add: decoding_system_context(1))
  note hyp3 = conjI [OF used conjI [OF h2 conjI [OF h3 conjI [OF h4 conjI [OF a(1)
      conjI [OF a(2) conjI [OF h7 \<open>- 1 < (0 :: int)\<close>]]]]]]]
  have "\<exists>es. process_context ?ops (Suc (0 + 2)) ?s 0
           = Some (Inr (es,
               ?s\<lparr>xma_context_array := (xma_context_array ?s)
                     (0 := (xma_context_array ?s 0)\<lparr>decoder := DiscardPacket ?ops (True, 1)\<rparr>),
                 memory := Store ?rec ((memory ?s)(0x3000 := 0xEE))
                   (TranslatePhysical (guest_ptr (xma_context_array ?s 0)))\<rparr>))
         \<and> failed es \<and> completed es = 0 \<and> stops_after_failure es"
    by (rule th [where ops = ?ops and s = ?s and n = 0 and k = 0 and dk = ?rec
          and deck = "(False, 0)" and mk = "memory ?s" and r = "- 1" and ?d1.0 = "(True, 1)"
          and mm = "(memory ?s)(0x3000 := 0xEE)" and fuel'' = 2,
          THEN conjunct2, THEN conjunct2, THEN conjunct1, THEN mp, OF hyp3])
  then have ex3: "\<exists>es. process_context ?ops 3 ?s 0
           = Some (Inr (es, ?s
               \<lparr>xma_context_array := (xma_context_array ?s)
                    (0 := \<lparr>guest_ptr = 0x40000, in_use = True, decoder = (False, 1)\<rparr>),
                 memory := Store ?rec ((memory ?s)(0x3000 := 0xEE)) 0x40000\<rparr>))
         \<and> failed es \<and> completed es = 0 \<and> stops_after_failure es"
    unfolding e1 e2 e3 e4 .
  have dpf: "DecodePacket ?ops (False, 0) (\<lambda>a. 0) 0x3000 0 256
       = (- 1, (True, 1), (\<lambda>a. 0)(0x3000 := 0xEE))"
    by (simp add: corrupt_packet_decoder_def)
  show ?thesis
    by (intro conjI) (rule a dpf loop used valid cd ls0 ex3 ex)+
qed

lemma size_t_sub_simple: "b \<le> a \<Longrightarrow> a < 2 ^ 64 \<Longrightarrow> size_t_sub a b = a - b"
proof -
  assume le: "b \<le> a" and lt: "a < 2 ^ 64"
  then have "b mod 2 ^ 64 = b" by simp
  moreover have "a + (2 ^ 64 - b) = 2 ^ 64 + (a - b)" using le lt by simp
  moreover have "(2 ^ 64 + (a - b)) mod 2 ^ 64 = a - b" using lt by simp
  ultimately show ?thesis by (simp only: size_t_sub_def)
qed

lemma size_t_wrap_small: "n < 2 ^ 64 \<Longrightarrow> size_t_wrap n = n"
  by (simp add: size_t_wrap_def)

lemma unat_get_field_less: "unat (get_field d f) < 2 ^ field_width f"
  by (simp add: get_field_def unsigned_take_bit_eq take_bit_nat_less_exp)

lemma unat_take_bit_of_nat:
  assumes "k < 2 ^ n" "n \<le> 32"
  shows "unat (take_bit n (of_nat k :: u32)) = k"
proof -
  have "k < 2 ^ 32"
    using assms by (meson less_le_trans one_le_numeral power_increasing)
  then have "unat (of_nat k :: u32) = k"
    by (simp add: unat_of_nat)
  then show ?thesis
    using assms(1) by (simp add: unsigned_take_bit_eq take_bit_nat_eq_self)
qed

lemma next_read_offset:
  assumes "length data = 16"
  shows "get_field (loop_next_data data read) input_buffer_read_offset =
     take_bit 26 (of_nat (size_t_wrap
       (((if read = 0 then size_t_wrap (loop_input_offset data + 2048)
          else loop_input_offset data) + 4) * 8)))"
  unfolding loop_next_data_def
  by (subst get_set_field_other, simp, subst get_set_field_same [OF assms], simp)

lemma next_write_offset:
  assumes "length data = 16"
  shows "get_field (loop_next_data data read) output_buffer_write_offset =
     take_bit 5 (of_nat (size_t_wrap (loop_output_offset data + nat read) div 256))"
  unfolding loop_next_data_def
  by (subst get_set_field_same, simp add: length_set_field assms, simp)

text \<open>The quantities of a ready record, without wrap-around.\<close>

lemma loop_ready_values:
  assumes "loop_ready data"
  shows "loop_input_size data \<le> 4095 * 2048"
    and "loop_input_offset data
           = unat (get_field data input_buffer_read_offset) div 8 - 4"
    and "loop_input_remaining data = loop_input_size data - loop_input_offset data"
    and "loop_output_size data \<le> 31 * 256"
    and "loop_output_remaining data = loop_output_size data - loop_output_offset data"
    and "loop_output_offset data + loop_output_remaining data = loop_output_size data"
proof -
  have c0: "unat (get_field data input_buffer_0_packet_count) < 4096"
    using unat_get_field_less [of data input_buffer_0_packet_count] by simp
  have c1: "unat (get_field data input_buffer_1_packet_count) = 0"
    using assms by (simp add: loop_ready_def)
  show size: "loop_input_size data \<le> 4095 * 2048"
    using c0 c1 by (simp add: loop_input_size_def)
  have ro: "unat (get_field data input_buffer_read_offset) < 2 ^ 26"
    using unat_get_field_less [of data input_buffer_read_offset] by simp
  have ro32: "32 \<le> unat (get_field data input_buffer_read_offset)"
    using assms by (simp add: loop_ready_def)
  show off: "loop_input_offset data = unat (get_field data input_buffer_read_offset) div 8 - 4"
    unfolding loop_input_offset_def using ro ro32 by (intro size_t_sub_simple) simp_all
  have le: "loop_input_offset data \<le> loop_input_size data"
    using assms by (simp add: loop_ready_def)
  show "loop_input_remaining data = loop_input_size data - loop_input_offset data"
    unfolding loop_input_remaining_def using le size by (intro size_t_sub_simple) simp_all
  have bc: "unat (get_field data output_buffer_block_count) < 32"
    using unat_get_field_less [of data output_buffer_block_count] by simp
  show osize: "loop_output_size data \<le> 31 * 256"
    using bc by (simp add: loop_output_size_def)
  have ole: "loop_output_offset data \<le> loop_output_size data"
    using assms by (simp add: loop_ready_def)
  show orem: "loop_output_remaining data = loop_output_size data - loop_output_offset data"
    unfolding loop_output_remaining_def using ole osize by (intro size_t_sub_simple) simp_all
  show "loop_output_offset data + loop_output_remaining data = loop_output_size data"
    using ole orem by simp
qed

lemma loop_step:
  assumes ready: "loop_ready data"
    and rem: "loop_input_remaining data \<noteq> 0" "loop_output_remaining data \<noteq> 0"
    and nonneg: "0 \<le> read"
    and blocks: "0 < read \<longrightarrow> nat read \<le> loop_output_remaining data \<and> 256 dvd read"
  shows "loop_ready (loop_next_data data read)"
    and "loop_bound (loop_next_data data read) < loop_bound data"
    and "loop_output_size (loop_next_data data read) = loop_output_size data"
proof -
  let ?next = "loop_next_data data read"
  let ?S = "loop_input_size data" and ?io = "loop_input_offset data"
  let ?O = "loop_output_size data" and ?oo = "loop_output_offset data"
  let ?r = "nat read"
  note vals = loop_ready_values [OF ready]
  have len: "length data = 16" and c1: "get_field data input_buffer_1_packet_count = 0"
    and io_le: "?io \<le> ?S" and dvd_in: "2048 dvd (?S - ?io)" and oo_le: "?oo \<le> ?O"
    using ready by (simp_all add: loop_ready_def)
  have io_lt: "?io < ?S" using rem(1) vals(3) by simp
  from dvd_in obtain p where p: "?S - ?io = 2048 * p" by (rule dvdE)
  have p_pos: "0 < p" using io_lt p by (cases p) simp_all
  have oo_lt: "?oo < ?O" using rem(2) vals(5) by simp
  have dvd_oo: "256 dvd ?oo" by (simp add: loop_output_offset_def)
  have dvd_O: "256 dvd ?O" by (simp add: loop_output_size_def)
  have r_le: "?r \<le> ?O - ?oo" using blocks nonneg vals(5) by (cases "read = 0") auto
  have dvd_r: "256 dvd ?r"
    using blocks nonneg by (cases "read = 0") (auto simp: int_dvd_int_iff [symmetric])
  let ?io2 = "if read = 0 then size_t_wrap (?io + 2048) else ?io"
  have io2: "?io2 = (if read = 0 then ?io + 2048 else ?io)"
    using io_le vals(1) by (simp add: size_t_wrap_small)
  have io2_le: "?io2 \<le> ?S"
    unfolding io2 using p p_pos io_le by (cases p) auto
  have ro_small: "(?io2 + 4) * 8 < 2 ^ 26"
    using io2_le vals(1) by simp
  have ro': "unat (get_field ?next input_buffer_read_offset) = (?io2 + 4) * 8"
  proof -
    have "size_t_wrap ((?io2 + 4) * 8) = (?io2 + 4) * 8"
      using ro_small by (intro size_t_wrap_small) simp
    then show ?thesis
      using ro_small by (simp only: next_read_offset [OF len] unat_take_bit_of_nat)
  qed
  have out_small: "(?oo + ?r) div 256 < 2 ^ 5"
    using r_le oo_le vals(4) by simp
  have wo': "unat (get_field ?next output_buffer_write_offset) = (?oo + ?r) div 256"
  proof -
    have "size_t_wrap (?oo + ?r) = ?oo + ?r"
      using r_le oo_le vals(4) by (intro size_t_wrap_small) simp
    then show ?thesis
      using out_small by (simp only: next_write_offset [OF len] unat_take_bit_of_nat)
  qed
  have same: "get_field ?next f = get_field data f"
    if "f \<noteq> input_buffer_read_offset" "f \<noteq> output_buffer_write_offset" for f
    using that by (rule loop_next_data_other)
  have S': "loop_input_size ?next = ?S"
    by (simp add: loop_input_size_def same)
  show O': "loop_output_size ?next = ?O"
    by (simp add: loop_output_size_def same)
  have io': "loop_input_offset ?next = ?io2"
  proof -
    have "loop_input_offset ?next = size_t_sub ((?io2 + 4) * 8 div 8) 4"
      by (simp only: loop_input_offset_def ro')
    also have "\<dots> = (?io2 + 4) * 8 div 8 - 4"
      using ro_small by (intro size_t_sub_simple) simp_all
    also have "\<dots> = ?io2" by simp
    finally show ?thesis .
  qed
  have oo': "loop_output_offset ?next = ?oo + ?r"
  proof -
    from dvd_oo dvd_r have "256 dvd (?oo + ?r)" by simp
    then have "(?oo + ?r) div 256 * 256 = ?oo + ?r" by simp
    then show ?thesis by (simp only: loop_output_offset_def wo')
  qed
  have dvd_in': "2048 dvd (?S - ?io2)"
  proof (cases "read = 0")
    case True
    have "?S - (?io + 2048) = 2048 * (p - 1)"
      using p p_pos by (cases p) simp_all
    then show ?thesis using True io2 by simp
  next
    case False
    then show ?thesis using dvd_in io2 by simp
  qed
  show "loop_ready ?next"
    unfolding loop_ready_def
    using len c1 io2_le dvd_in' r_le oo_le
    by (simp add: length_loop_next_data same S' O' io' oo' ro')
  show "loop_bound ?next < loop_bound data"
  proof (cases "read = 0")
    case True
    then have "?S - ?io2 = 2048 * (p - 1)"
      using p p_pos io2 by (cases p) simp_all
    moreover have "?r = 0" using True by simp
    ultimately show ?thesis
      using p p_pos by (simp add: loop_bound_def S' O' io' oo')
  next
    case False
    with nonneg have pos: "0 < ?r" by simp
    from dvd_r obtain q where q: "?r = 256 * q" by (rule dvdE)
    from dvd_oo dvd_O oo_le have "256 dvd (?O - ?oo)" by (simp add: dvd_diff_nat)
    then obtain t where t: "?O - ?oo = 256 * t" by (rule dvdE)
    have "0 < q" using pos q by (cases q) simp_all
    moreover have "q \<le> t" using r_le q t by simp
    moreover have "?O - (?oo + ?r) = 256 * (t - q)"
      using q t by (simp add: diff_mult_distrib2)
    ultimately have "(?O - (?oo + ?r)) div 256 < (?O - ?oo) div 256"
      using t by simp
    moreover have "?io2 = ?io" using False io2 by simp
    ultimately show ?thesis
      by (simp add: loop_bound_def S' O' io' oo')
  qed
qed

lemma bounded_by_events:
  "bounded_by limit (loop_events in0 data read @ evs) \<longleftrightarrow>
     loop_output_offset data + loop_output_remaining data = limit \<and> bounded_by limit evs"
  by (simp add: loop_events_def)

lemma decode_loop_terminates:
  assumes dec: "emits_whole_blocks ops"
  shows "loop_ready data \<Longrightarrow> loop_bound data < fuel \<Longrightarrow>
     \<exists>evs k data' dec' m'.
        decode_loop ops fuel in0 out data dec m = Some (evs, k, data', dec', m')
        \<and> k \<le> loop_bound data \<and> bounded_by (loop_output_size data) evs"
proof (induction fuel arbitrary: data dec m)
  case 0
  then show ?case by simp
next
  case (Suc fuel)
  note vals = loop_ready_values [OF Suc.prems(1)]
  show ?case
  proof (cases "loop_input_remaining data = 0 \<or> loop_output_remaining data = 0")
    case True
    then show ?thesis by (simp add: decode_loop_Suc)
  next
    case False
    obtain read dec1 m1 where
      dp: "DecodePacket ops dec m out (loop_output_offset data) (loop_output_remaining data)
             = (read, dec1, m1)"
      by (cases "DecodePacket ops dec m out (loop_output_offset data) (loop_output_remaining data)")
    show ?thesis
    proof (cases "read < 0")
      case True
      with False dp vals(6) show ?thesis by (simp add: decode_loop_Suc)
    next
      case nonneg: False
      from dec dp have blocks:
        "0 < read \<longrightarrow> nat read \<le> loop_output_remaining data \<and> 256 dvd read"
        unfolding emits_whole_blocks_def
        by (metis (mono_tags, lifting) case_prod_conv)
      from False nonneg have rem: "loop_input_remaining data \<noteq> 0"
          "loop_output_remaining data \<noteq> 0" and r0: "0 \<le> read"
        by simp_all
      note step = loop_step [OF Suc.prems(1) rem r0 blocks]
      from step(2) Suc.prems(2) have "loop_bound (loop_next_data data read) < fuel"
        by simp
      from Suc.IH [OF step(1) this, of "loop_next_decoder ops in0 data read dec1 m1" m1]
      obtain evs' k' data' dec' m' where
        rec: "decode_loop ops fuel in0 out (loop_next_data data read)
                (loop_next_decoder ops in0 data read dec1 m1) m1 = Some (evs', k', data', dec', m')"
        and k': "k' \<le> loop_bound (loop_next_data data read)"
        and b': "bounded_by (loop_output_size (loop_next_data data read)) evs'"
        by blast
      have "decode_loop ops (Suc fuel) in0 out data dec m
          = Some (loop_events in0 data read @ evs', Suc k', data', dec', m')"
        using False dp nonneg rec by (simp add: decode_loop_Suc)
      moreover have "Suc k' \<le> loop_bound data"
        using k' step(2) by simp
      moreover have "bounded_by (loop_output_size data) (loop_events in0 data read @ evs')"
        using b' vals(6) by (simp add: bounded_by_events step(3))
      ultimately show ?thesis by blast
    qed
  qed
qed

lemma emits_whole_blocks_fixed_ratio: "emits_whole_blocks (fixed_ratio_decoder n)"
proof -
  have "nat (int (min pending (sz div 256) * 256)) \<le> sz" for pending sz :: nat
  proof -
    have "min pending (sz div 256) * 256 \<le> sz div 256 * 256" by simp
    also have "\<dots> \<le> sz" by simp
    finally show ?thesis by simp
  qed
  moreover have "256 dvd int (min pending (sz div 256) * 256)" for pending sz :: nat
    by simp
  ultimately show ?thesis
    by (simp only: emits_whole_blocks_def fixed_ratio_decoder_def AudioDecoder.simps
        prod.case simp_thms)
qed

lemma two_packet_record_values:
  "loop_input_size two_packet_record = 4096"
  "loop_input_offset two_packet_record = 0"
  "loop_output_size two_packet_record = 7936"
  "loop_output_offset two_packet_record = 0"
  "loop_ready two_packet_record"
  "loop_bound two_packet_record = 33"
  by (simp_all add: loop_ready_def loop_bound_def loop_input_size_def loop_input_offset_def
      loop_output_size_def loop_output_offset_def get_field_def size_t_sub_def
      two_packet_record_def)

text \<open>Claim C2, as the code has it. For a record with the second input buffer empty, its
  read offset past the header and at a packet boundary inside the \<open>S\<close> input bytes, and its
  write offset inside the \<open>O\<close> output bytes, and a decoder whose positive results are whole
  256-byte blocks no larger than the size it is given, the inner loop returns when it is
  given more fuel than \<open>loop_bound\<close>: it runs at most one iteration for every packet left in
  the input plus one for every block left in the output, and every \<open>DecodePacket\<close> call gets
  an offset and a size that end at \<open>O\<close>.\<close>

theorem decode_loop_terminates_bounded:
  assumes "emits_whole_blocks ops" "loop_ready data" "loop_bound data < fuel"
  shows "\<exists>evs k data' dec' m'.
        decode_loop ops fuel in0 out data dec m = Some (evs, k, data', dec', m')
        \<and> k \<le> loop_bound data \<and> bounded_by (loop_output_size data) evs"
  using assms by (rule decode_loop_terminates)

theorem decode_loop_terminates_bounded_witness:
  "emits_whole_blocks (fixed_ratio_decoder 8) \<and> loop_ready two_packet_record
   \<and> loop_bound two_packet_record < 34
   \<and> (\<exists>evs k data' dec' m'.
         decode_loop (fixed_ratio_decoder 8) 34 0x1000 0x3000 two_packet_record 0 (\<lambda>a. 0)
           = Some (evs, k, data', dec', m')
         \<and> k \<le> 33 \<and> bounded_by 7936 evs)"
proof -
  have a: "emits_whole_blocks (fixed_ratio_decoder 8)"
    by (rule emits_whole_blocks_fixed_ratio)
  have b: "loop_ready two_packet_record"
    by (rule two_packet_record_values)
  have c: "loop_bound two_packet_record < 34"
    by (simp add: two_packet_record_values)
  from decode_loop_terminates_bounded [OF a b c, of "0x1000" "0x3000" 0 "\<lambda>a. 0"] a b c
  show ?thesis by (simp add: two_packet_record_values)
qed

lemma fixed_ratio_ops:
  "DecodePacket (fixed_ratio_decoder n) pending m output offset sz
     = (int (min pending (sz div 256) * 256), pending - min pending (sz div 256), m)"
  "PreparePacket (fixed_ratio_decoder n) pending m packet sz sr ch = n"
  by (simp_all add: fixed_ratio_decoder_def)

lemmas loop_eval =
  loop_input_remaining_def loop_input_size_def loop_input_offset_def
  loop_output_remaining_def loop_output_size_def loop_output_offset_def
  loop_next_data_def loop_next_decoder_def loop_events_def
  get_field_def set_field_def size_t_sub_def size_t_wrap_def
  select_sample_rate_def select_channels_def fixed_ratio_ops mask_eq_exp_minus_1

lemma two_packet_step1:
  "decode_loop (fixed_ratio_decoder 8) (Suc fuel) 0x1000 0x3000 two_packet_record 0 (\<lambda>a. 0)
     = (case decode_loop (fixed_ratio_decoder 8) fuel 0x1000 0x3000
              [0x07C00002, 0, 0x4020, 0, 0, 0x1000, 0, 0x3000, 0, 0, 0, 0, 0, 0, 0, 0] 8 (\<lambda>a. 0) of
          None \<Rightarrow> None
        | Some (evs', k, rest) \<Rightarrow>
            Some ([EvDecodePacket 0 7936 0, EvPreparePacket 0x1000 2048 24000 1] @ evs',
                  Suc k, rest))"
  by (simp add: decode_loop_Suc two_packet_record_def loop_eval cong: option.case_cong)

lemma two_packet_step2:
  "decode_loop (fixed_ratio_decoder 8) (Suc fuel) 0x1000 0x3000
       [0x07C00002, 0, 0x4020, 0, 0, 0x1000, 0, 0x3000, 0, 0, 0, 0, 0, 0, 0, 0] 8 (\<lambda>a. 0)
     = (case decode_loop (fixed_ratio_decoder 8) fuel 0x1000 0x3000
              [0x47C00002, 0, 0x4020, 0, 0, 0x1000, 0, 0x3000, 0, 0, 0, 0, 0, 0, 0, 0] 0 (\<lambda>a. 0) of
          None \<Rightarrow> None
        | Some (evs', k, rest) \<Rightarrow>
            Some ([EvDecodePacket 0 7936 2048] @ evs', Suc k, rest))"
  by (simp add: decode_loop_Suc loop_eval cong: option.case_cong)

lemma two_packet_step3:
  "decode_loop (fixed_ratio_decoder 8) (Suc fuel) 0x1000 0x3000
       [0x47C00002, 0, 0x4020, 0, 0, 0x1000, 0, 0x3000, 0, 0, 0, 0, 0, 0, 0, 0] 0 (\<lambda>a. 0)
     = (case decode_loop (fixed_ratio_decoder 8) fuel 0x1000 0x3000
              [0x47C00002, 0, 0x8020, 0, 0, 0x1000, 0, 0x3000, 0, 0, 0, 0, 0, 0, 0, 0] 8 (\<lambda>a. 0) of
          None \<Rightarrow> None
        | Some (evs', k, rest) \<Rightarrow>
            Some ([EvDecodePacket 2048 5888 0, EvPreparePacket 0x1800 2048 24000 1] @ evs',
                  Suc k, rest))"
  by (simp add: decode_loop_Suc loop_eval cong: option.case_cong)

lemma two_packet_step4:
  "decode_loop (fixed_ratio_decoder 8) (Suc fuel) 0x1000 0x3000
       [0x47C00002, 0, 0x8020, 0, 0, 0x1000, 0, 0x3000, 0, 0, 0, 0, 0, 0, 0, 0] 8 (\<lambda>a. 0)
     = Some ([], 0, [0x47C00002, 0, 0x8020, 0, 0, 0x1000, 0, 0x3000, 0, 0, 0, 0, 0, 0, 0, 0],
             8, (\<lambda>a. 0))"
  by (simp add: decode_loop_Suc loop_eval)

theorem iteration_bound_counterexample:
  "decode_loop (fixed_ratio_decoder 8) (Suc (Suc (Suc (Suc 0)))) 0x1000 0x3000
       two_packet_record 0 (\<lambda>a. 0)
     = Some ([EvDecodePacket 0 7936 0, EvPreparePacket 0x1000 2048 24000 1,
              EvDecodePacket 0 7936 2048,
              EvDecodePacket 2048 5888 0, EvPreparePacket 0x1800 2048 24000 1],
             3, [0x47C00002, 0, 0x8020, 0, 0, 0x1000, 0, 0x3000, 0, 0, 0, 0, 0, 0, 0, 0],
             8, (\<lambda>a. 0))
   \<and> loop_input_size two_packet_record = 4096
   \<and> loop_output_size two_packet_record = 7936
   \<and> \<not> (3 :: nat) \<le> (min 4096 7936 + 2047) div 2048"
  by (simp add: two_packet_step1 two_packet_step2 two_packet_step3 two_packet_step4
      two_packet_record_values)

end
